theory Spec2Isabelle
  imports Main "HOL-Library.Sublist"
begin

section \<open>Python strings\<close>

text \<open>
  A Python \<open>str\<close> is a sequence of Unicode code points, so a string is a list of
  integers (\<open>len\<close> counts code points, the byte-order mark is the single code point 65279).
  ASCII literals of the source are written \<open>ascii ''...''\<close>; the accented literals are
  spelled out by code point (the source file is in composed form: e acute is 233,
  E acute is 201, a circumflex is 226).
\<close>

type_synonym uchar = int
type_synonym ustr = "int list"

definition ascii :: "string \<Rightarrow> ustr" where
  "ascii s = map of_char s"

definition BOM :: uchar where "BOM = 65279"
definition NEWLINE :: uchar where "NEWLINE = 10"
definition SPACE :: uchar where "SPACE = 32"
definition SEMICOLON :: uchar where "SEMICOLON = 59"
definition DQUOTE :: uchar where "DQUOTE = 34"
definition SQUOTE :: uchar where "SQUOTE = 39"

text \<open>\<open>str.isspace\<close> on one code point: the whitespace table of CPython.\<close>

definition isspace :: "uchar \<Rightarrow> bool" where
  "isspace c = ((9 \<le> c \<and> c \<le> 13) \<or> (28 \<le> c \<and> c \<le> 32) \<or> c = 133 \<or> c = 160
     \<or> c = 5760 \<or> (8192 \<le> c \<and> c \<le> 8202) \<or> c = 8232 \<or> c = 8233 \<or> c = 8239
     \<or> c = 8287 \<or> c = 12288)"

definition lstrip_by :: "(uchar \<Rightarrow> bool) \<Rightarrow> ustr \<Rightarrow> ustr" where
  "lstrip_by p s = dropWhile p s"

definition rstrip_by :: "(uchar \<Rightarrow> bool) \<Rightarrow> ustr \<Rightarrow> ustr" where
  "rstrip_by p s = rev (dropWhile p (rev s))"

definition strip_by :: "(uchar \<Rightarrow> bool) \<Rightarrow> ustr \<Rightarrow> ustr" where
  "strip_by p s = lstrip_by p (rstrip_by p s)"

text \<open>\<open>s.strip()\<close>, \<open>s.strip(chars)\<close> and \<open>s.rstrip(chars)\<close>.\<close>

definition strip :: "ustr \<Rightarrow> ustr" where
  "strip s = strip_by isspace s"

definition strip_chars :: "ustr \<Rightarrow> ustr \<Rightarrow> ustr" where
  "strip_chars chars s = strip_by (\<lambda>c. c \<in> set chars) s"

definition rstrip_chars :: "ustr \<Rightarrow> ustr \<Rightarrow> ustr" where
  "rstrip_chars chars s = rstrip_by (\<lambda>c. c \<in> set chars) s"

text \<open>\<open>s.replace(c, "")\<close> for a one-character \<open>c\<close>.\<close>

definition remove_char :: "uchar \<Rightarrow> ustr \<Rightarrow> ustr" where
  "remove_char c s = filter (\<lambda>x. x \<noteq> c) s"

text \<open>\<open>s.startswith(p)\<close> and \<open>sub in s\<close>.\<close>

definition startswith :: "ustr \<Rightarrow> ustr \<Rightarrow> bool" where
  "startswith s p = prefix p s"

definition contains :: "ustr \<Rightarrow> ustr \<Rightarrow> bool" where
  "contains s sub = sublist sub s"

text \<open>
  \<open>s.split(delimiter)\<close> for a one-character delimiter (every caller passes \<open>";"\<close>):
  one token more than there are delimiters, never an empty list.
\<close>

fun py_split :: "uchar \<Rightarrow> ustr \<Rightarrow> ustr list" where
  "py_split d [] = [[]]"
| "py_split d (c # cs) =
     (if c = d then [] # py_split d cs
      else (case py_split d cs of
              [] \<Rightarrow> [[c]]
            | t # ts \<Rightarrow> (c # t) # ts))"

text \<open>\<open>s.split(delimiter, 1)[0]\<close>: the text before the first delimiter.\<close>

definition first_field :: "uchar \<Rightarrow> ustr \<Rightarrow> ustr" where
  "first_field d s = takeWhile (\<lambda>c. c \<noteq> d) s"

text \<open>\<open>sep.join(parts)\<close>.\<close>

fun py_join :: "ustr \<Rightarrow> ustr list \<Rightarrow> ustr" where
  "py_join sep [] = []"
| "py_join sep [x] = x"
| "py_join sep (x # y # ys) = x @ sep @ py_join sep (y # ys)"

section \<open>Record reassembly\<close>

definition BE_PREFIX :: ustr where
  "BE_PREFIX = ascii ''BE-''"

text \<open>
  \<open>x.replace(BOM, "").strip().strip('"').strip("'")\<close>: the cleaning applied to a first
  token, in \<open>rebuild_records_by_id\<close> and in \<open>extract_fields\<close> alike.
\<close>

definition clean_first :: "ustr \<Rightarrow> ustr" where
  "clean_first x = strip_chars [SQUOTE] (strip_chars [DQUOTE] (strip (remove_char BOM x)))"

definition is_blank :: "ustr \<Rightarrow> bool" where
  "is_blank l = (strip l = [])"

text \<open>Lines 162 to 165: does the line open a new record?\<close>

definition starts_new_record :: "uchar \<Rightarrow> ustr \<Rightarrow> bool" where
  "starts_new_record delimiter line =
     startswith (clean_first (first_field delimiter line)) BE_PREFIX"

text \<open>One pass of the \<open>for raw in lines[i + 1:]\<close> loop over the pair (rebuilt, current).\<close>

definition rebuild_step :: "uchar \<Rightarrow> ustr list \<times> ustr option \<Rightarrow> ustr \<Rightarrow> ustr list \<times> ustr option" where
  "rebuild_step delimiter st raw =
     (case st of (rebuilt, current) \<Rightarrow>
        let line = rstrip_chars [NEWLINE] raw in
        if is_blank line then (rebuilt, current)
        else if starts_new_record delimiter line then
          (case current of
             Some c \<Rightarrow> (rebuilt @ [c], Some line)
           | None \<Rightarrow> (rebuilt, Some line))
        else
          (case current of
             None \<Rightarrow> (rebuilt, None)
           | Some c \<Rightarrow> (rebuilt, Some (c @ [SPACE] @ line))))"

text \<open>Lines 174 to 177: the record still open at the end of the input is appended.\<close>

definition flush_current :: "ustr list \<times> ustr option \<Rightarrow> ustr list" where
  "flush_current st =
     (case st of (rebuilt, current) \<Rightarrow>
        (case current of
           None \<Rightarrow> rebuilt
         | Some c \<Rightarrow> rebuilt @ [c]))"

definition rebuild_records_by_id :: "ustr list \<Rightarrow> uchar \<Rightarrow> ustr list" where
  "rebuild_records_by_id lines delimiter =
     (if lines = [] then []
      else
        (case dropWhile is_blank lines of
           [] \<Rightarrow> []
         | h # rest \<Rightarrow>
             flush_current
               (foldl (rebuild_step delimiter) ([rstrip_chars [NEWLINE] h], None) rest)))"

section \<open>The Unicode tables and regular expressions of the Python library\<close>

text \<open>
  The character classes of Python are tables of the Unicode database. They are a
  parameter of the model, so that a theorem about all tables holds for the real ones:
  \<open>decimal_value\<close> gives the value of a decimal digit (the class \<open>\d\<close> of \<open>re\<close>, the
  digits \<open>int\<close> reads), \<open>isdigit\<close> and \<open>isalpha\<close> are the \<open>str\<close> methods,
  \<open>isword\<close> is the class \<open>\w\<close>, and \<open>caseless p c\<close> says that the pattern character
  \<open>p\<close> matches \<open>c\<close> under \<open>re.IGNORECASE\<close>.
\<close>

record pydb =
  decimal_value :: "uchar \<Rightarrow> int option"
  isdigit :: "uchar \<Rightarrow> bool"
  isalpha :: "uchar \<Rightarrow> bool"
  isword :: "uchar \<Rightarrow> bool"
  caseless :: "uchar \<Rightarrow> uchar \<Rightarrow> bool"

text \<open>
  The tables on the code points below 256 (ASCII and Latin-1), which is all that the
  concrete runs of this theory touch.
\<close>

definition latin1_alpha :: "uchar \<Rightarrow> bool" where
  "latin1_alpha c = ((65 \<le> c \<and> c \<le> 90) \<or> (97 \<le> c \<and> c \<le> 122) \<or> c = 170 \<or> c = 181
     \<or> c = 186 \<or> (192 \<le> c \<and> c \<le> 214) \<or> (216 \<le> c \<and> c \<le> 246) \<or> (248 \<le> c \<and> c \<le> 255))"

definition latin1_digit :: "uchar \<Rightarrow> bool" where
  "latin1_digit c = ((48 \<le> c \<and> c \<le> 57) \<or> c = 178 \<or> c = 179 \<or> c = 185)"

definition latin1_upper :: "uchar \<Rightarrow> bool" where
  "latin1_upper c = ((65 \<le> c \<and> c \<le> 90) \<or> (192 \<le> c \<and> c \<le> 214) \<or> (216 \<le> c \<and> c \<le> 222))"

definition latin1_db :: pydb where
  "latin1_db = \<lparr>
     decimal_value = (\<lambda>c. if 48 \<le> c \<and> c \<le> 57 then Some (c - 48) else None),
     isdigit = latin1_digit,
     isalpha = latin1_alpha,
     isword = (\<lambda>c. latin1_alpha c \<or> latin1_digit c \<or> c = 95 \<or> (188 \<le> c \<and> c \<le> 190)),
     caseless = (\<lambda>p c. c = p \<or> (latin1_upper p \<and> c = p + 32) \<or> (latin1_upper c \<and> p = c + 32)) \<rparr>"

text \<open>
  Regular expressions, as far as the patterns of the source and of \<open>strptime\<close> use
  them. A position is the character before it (if any) and the text after it; running
  an expression from a position lists the positions where a match can end, in the order
  in which the backtracking matcher of \<open>re\<close> finds them.
\<close>

datatype atom =
    Lit uchar
  | OneOf "uchar list"
  | Range uchar uchar
  | Digit
  | Space

datatype rx =
    Atom atom
  | Seq rx rx
  | Alt rx rx
  | Eps
  | Many1 atom
  | WordB
  | Bol
  | Eol

type_synonym pos = "uchar option \<times> ustr"

fun atom_ok :: "pydb \<Rightarrow> bool \<Rightarrow> atom \<Rightarrow> uchar \<Rightarrow> bool" where
  "atom_ok U ic (Lit p) c = (if ic then caseless U p c else c = p)"
| "atom_ok U ic (OneOf ps) c = (c \<in> set ps)"
| "atom_ok U ic (Range lo hi) c = (lo \<le> c \<and> c \<le> hi)"
| "atom_ok U ic Digit c = (decimal_value U c \<noteq> None)"
| "atom_ok U ic Space c = isspace c"

definition word_at :: "pydb \<Rightarrow> uchar option \<Rightarrow> bool" where
  "word_at U x = (case x of None \<Rightarrow> False | Some c \<Rightarrow> isword U c)"

definition next_char :: "ustr \<Rightarrow> uchar option" where
  "next_char s = (case s of [] \<Rightarrow> None | c # _ \<Rightarrow> Some c)"

text \<open>The ends of the runs of one or more characters of a class, the longest first.\<close>

fun many1_ends :: "(uchar \<Rightarrow> bool) \<Rightarrow> ustr \<Rightarrow> pos list" where
  "many1_ends ok [] = []"
| "many1_ends ok (c # cs) = (if ok c then many1_ends ok cs @ [(Some c, cs)] else [])"

fun rx_run :: "pydb \<Rightarrow> bool \<Rightarrow> rx \<Rightarrow> pos \<Rightarrow> pos list" where
  "rx_run U ic (Atom a) (prev, s) =
     (case s of
        [] \<Rightarrow> []
      | c # cs \<Rightarrow> (if atom_ok U ic a c then [(Some c, cs)] else []))"
| "rx_run U ic (Seq r1 r2) p = concat (map (rx_run U ic r2) (rx_run U ic r1 p))"
| "rx_run U ic (Alt r1 r2) p = rx_run U ic r1 p @ rx_run U ic r2 p"
| "rx_run U ic Eps p = [p]"
| "rx_run U ic (Many1 a) (prev, s) = many1_ends (atom_ok U ic a) s"
| "rx_run U ic WordB (prev, s) =
     (if word_at U prev \<noteq> word_at U (next_char s) then [(prev, s)] else [])"
| "rx_run U ic Bol (prev, s) = (if prev = None then [(prev, s)] else [])"
| "rx_run U ic Eol (prev, s) = (if s = [] \<or> s = [NEWLINE] then [(prev, s)] else [])"

text \<open>\<open>pattern.match(s)\<close> and \<open>pattern.search(s)\<close>, as truth values.\<close>

definition rx_match :: "pydb \<Rightarrow> bool \<Rightarrow> rx \<Rightarrow> ustr \<Rightarrow> bool" where
  "rx_match U ic r s = (rx_run U ic r (None, s) \<noteq> [])"

fun rx_search_from :: "pydb \<Rightarrow> bool \<Rightarrow> rx \<Rightarrow> uchar option \<Rightarrow> ustr \<Rightarrow> bool" where
  "rx_search_from U ic r prev [] = (rx_run U ic r (prev, []) \<noteq> [])"
| "rx_search_from U ic r prev (c # cs) =
     (rx_run U ic r (prev, c # cs) \<noteq> [] \<or> rx_search_from U ic r (Some c) cs)"

definition rx_search :: "pydb \<Rightarrow> bool \<Rightarrow> rx \<Rightarrow> ustr \<Rightarrow> bool" where
  "rx_search U ic r s = rx_search_from U ic r None s"

fun rx_seq :: "rx list \<Rightarrow> rx" where
  "rx_seq [] = Eps"
| "rx_seq [r] = r"
| "rx_seq (r # rs) = Seq r (rx_seq rs)"

fun rx_alts :: "rx list \<Rightarrow> rx" where
  "rx_alts [] = Eps"
| "rx_alts [r] = r"
| "rx_alts (r # rs) = Alt r (rx_alts rs)"

definition rx_word :: "ustr \<Rightarrow> rx" where
  "rx_word w = rx_seq (map (\<lambda>c. Atom (Lit c)) w)"

definition rx_opt :: "rx \<Rightarrow> rx" where
  "rx_opt r = Alt r Eps"

subsection \<open>The patterns of the source (lines 41 to 48)\<close>

definition D2 :: rx where
  "D2 = Seq (Atom Digit) (Atom Digit)"

definition D2_4 :: rx where
  "D2_4 = rx_seq [Atom Digit, Atom Digit, rx_opt (Seq (Atom Digit) (rx_opt (Atom Digit)))]"

definition DATE_SEP :: rx where
  "DATE_SEP = Atom (OneOf (ascii ''-/''))"

definition RE_DT :: rx where
  "RE_DT = rx_seq [Bol, D2, DATE_SEP, D2, DATE_SEP, D2_4, Many1 Space, D2, Atom (Lit 58), D2,
                   rx_opt (Seq (Atom (Lit 58)) D2), Eol]"

definition RE_DATE :: rx where
  "RE_DATE = rx_seq [Bol, D2, DATE_SEP, D2, DATE_SEP, D2_4, Eol]"

definition D3_5 :: rx where
  "D3_5 = rx_seq [Atom Digit, Atom Digit, Atom Digit, rx_opt (Seq (Atom Digit) (rx_opt (Atom Digit)))]"

definition RE_BS_ID :: rx where
  "RE_BS_ID = rx_seq [Bol, rx_word (ascii ''BE-''), D3_5, Atom (Lit 45)]"

definition DOT_OPT :: rx where
  "DOT_OPT = rx_opt (Atom (Lit 46))"

definition RE_STREET :: rx where
  "RE_STREET = rx_seq [WordB,
     rx_alts [rx_word (ascii ''rue''), rx_word (ascii ''avenue''),
              Seq (rx_word (ascii ''av'')) DOT_OPT,
              rx_word (ascii ''chauss'' @ [233] @ ascii ''e''),
              Seq (rx_word (ascii ''ch'')) DOT_OPT,
              rx_word (ascii ''place''), rx_word (ascii ''impasse''),
              rx_word (ascii ''all'' @ [233] @ ascii ''e''),
              rx_word (ascii ''chemin''), rx_word (ascii ''route''),
              rx_word (ascii ''sentier''), rx_word (ascii ''clos''), rx_word (ascii ''quai''),
              rx_word (ascii ''boulevard''), Seq (rx_word (ascii ''bd'')) DOT_OPT],
     WordB]"

definition re_dt :: "pydb \<Rightarrow> ustr \<Rightarrow> bool" where
  "re_dt U t = rx_match U False RE_DT t"

definition re_date :: "pydb \<Rightarrow> ustr \<Rightarrow> bool" where
  "re_date U t = rx_match U False RE_DATE t"

definition re_bs_id :: "pydb \<Rightarrow> ustr \<Rightarrow> bool" where
  "re_bs_id U t = rx_match U True RE_BS_ID t"

definition re_street :: "pydb \<Rightarrow> ustr \<Rightarrow> bool" where
  "re_street U t = rx_search U True RE_STREET t"

section \<open>Dates and times of the Python library\<close>

text \<open>
  A naive \<open>datetime\<close> without microseconds (no format of the source reads any), with
  the arithmetic of the library: comparison field by field, and addition and
  subtraction through the proleptic Gregorian ordinal of the day. A \<open>timedelta\<close> is a
  number of seconds.
\<close>

record datetime =
  dt_year :: int
  dt_month :: int
  dt_day :: int
  dt_hour :: int
  dt_minute :: int
  dt_second :: int

record date =
  d_year :: int
  d_month :: int
  d_day :: int

record time =
  t_hour :: int
  t_minute :: int
  t_second :: int

type_synonym timedelta = int

datatype py_error =
    ValueError ustr
  | OverflowError ustr

text \<open>\<open>str(e)\<close> of an exception built with one message.\<close>

fun exc_str :: "py_error \<Rightarrow> ustr" where
  "exc_str (ValueError m) = m"
| "exc_str (OverflowError m) = m"

definition is_leap :: "int \<Rightarrow> bool" where
  "is_leap y = (y mod 4 = 0 \<and> (y mod 100 \<noteq> 0 \<or> y mod 400 = 0))"

definition DAYS_IN_MONTH :: "int list" where
  "DAYS_IN_MONTH = [-1, 31, 28, 31, 30, 31, 30, 31, 31, 30, 31, 30, 31]"

definition DAYS_BEFORE_MONTH :: "int list" where
  "DAYS_BEFORE_MONTH = [-1, 0, 31, 59, 90, 120, 151, 181, 212, 243, 273, 304, 334]"

definition MAXORDINAL :: int where
  "MAXORDINAL = 3652059"

definition days_in_month :: "int \<Rightarrow> int \<Rightarrow> int" where
  "days_in_month y m = (if m = 2 \<and> is_leap y then 29 else DAYS_IN_MONTH ! nat m)"

definition days_before_year :: "int \<Rightarrow> int" where
  "days_before_year year = (let y = year - 1 in y * 365 + y div 4 - y div 100 + y div 400)"

definition days_before_month :: "int \<Rightarrow> int \<Rightarrow> int" where
  "days_before_month y m = DAYS_BEFORE_MONTH ! nat m + (if m > 2 \<and> is_leap y then 1 else 0)"

definition ymd2ord :: "int \<Rightarrow> int \<Rightarrow> int \<Rightarrow> int" where
  "ymd2ord y m d = days_before_year y + days_before_month y m + d"

definition ord2ymd :: "int \<Rightarrow> int \<times> int \<times> int" where
  "ord2ymd ordinal =
     (let n = ordinal - 1;
          n400 = n div 146097; n = n mod 146097;
          year = n400 * 400 + 1;
          n100 = n div 36524; n = n mod 36524;
          n4 = n div 1461; n = n mod 1461;
          n1 = n div 365; n = n mod 365;
          year = year + n100 * 100 + n4 * 4 + n1
      in if n1 = 4 \<or> n100 = 4 then (year - 1, 12, 31)
         else
           let leapyear = (n1 = 3 \<and> (n4 \<noteq> 24 \<or> n100 = 3));
               month = (n + 50) div 32;
               preceding = DAYS_BEFORE_MONTH ! nat month + (if month > 2 \<and> leapyear then 1 else 0)
           in if preceding > n then
                let month = month - 1;
                    preceding = preceding
                      - (DAYS_IN_MONTH ! nat month + (if month = 2 \<and> leapyear then 1 else 0))
                in (year, month, n - preceding + 1)
              else (year, month, n - preceding + 1))"

text \<open>
  The constructor \<open>datetime(year, month, day, hour, minute, second)\<close>: a ValueError
  (here None) outside the ranges.
\<close>

definition mk_datetime :: "int \<Rightarrow> int \<Rightarrow> int \<Rightarrow> int \<Rightarrow> int \<Rightarrow> int \<Rightarrow> datetime option" where
  "mk_datetime y m d H M S =
     (if 1 \<le> y \<and> y \<le> 9999 \<and> 1 \<le> m \<and> m \<le> 12 \<and> 1 \<le> d \<and> d \<le> days_in_month y m
         \<and> 0 \<le> H \<and> H \<le> 23 \<and> 0 \<le> M \<and> M \<le> 59 \<and> 0 \<le> S \<and> S \<le> 59
      then Some \<lparr>dt_year = y, dt_month = m, dt_day = d, dt_hour = H, dt_minute = M, dt_second = S\<rparr>
      else None)"

definition dt_date :: "datetime \<Rightarrow> date" where
  "dt_date x = \<lparr>d_year = dt_year x, d_month = dt_month x, d_day = dt_day x\<rparr>"

definition dt_time :: "datetime \<Rightarrow> time" where
  "dt_time x = \<lparr>t_hour = dt_hour x, t_minute = dt_minute x, t_second = dt_second x\<rparr>"

text \<open>\<open>a < b\<close> on datetimes.\<close>

definition dt_less :: "datetime \<Rightarrow> datetime \<Rightarrow> bool" where
  "dt_less a b =
     (dt_year a < dt_year b \<or> (dt_year a = dt_year b \<and>
     (dt_month a < dt_month b \<or> (dt_month a = dt_month b \<and>
     (dt_day a < dt_day b \<or> (dt_day a = dt_day b \<and>
     (dt_hour a < dt_hour b \<or> (dt_hour a = dt_hour b \<and>
     (dt_minute a < dt_minute b \<or> (dt_minute a = dt_minute b \<and>
      dt_second a < dt_second b))))))))))"

text \<open>Seconds since the start of ordinal day 0.\<close>

definition dt_seconds :: "datetime \<Rightarrow> int" where
  "dt_seconds x = ymd2ord (dt_year x) (dt_month x) (dt_day x) * 86400
     + dt_hour x * 3600 + dt_minute x * 60 + dt_second x"

text \<open>\<open>x + delta\<close>: an OverflowError when the day leaves the years 1 to 9999.\<close>

definition dt_add :: "datetime \<Rightarrow> timedelta \<Rightarrow> py_error + datetime" where
  "dt_add x delta =
     (let total = dt_seconds x + delta;
          days = total div 86400;
          secs = total mod 86400
      in if 0 < days \<and> days \<le> MAXORDINAL then
           (case ord2ymd days of (y, m, d) \<Rightarrow>
              Inr \<lparr>dt_year = y, dt_month = m, dt_day = d,
                   dt_hour = secs div 3600, dt_minute = (secs mod 3600) div 60,
                   dt_second = secs mod 60\<rparr>)
         else Inl (OverflowError (ascii ''date value out of range'')))"

text \<open>\<open>a - b\<close>, and \<open>timedelta(hours=h)\<close>.\<close>

definition dt_sub :: "datetime \<Rightarrow> datetime \<Rightarrow> timedelta" where
  "dt_sub a b = dt_seconds a - dt_seconds b"

definition hours :: "int \<Rightarrow> timedelta" where
  "hours h = h * 3600"

subsection \<open>strptime\<close>

text \<open>
  \<open>datetime.strptime(s, fmt)\<close> for the directives the source uses. The library turns
  the format into a regular expression (a run of whitespace of the format becomes
  \<open>\s+\<close>, a directive becomes the group below), takes the first match the backtracking
  matcher finds, fails when text remains after it, and builds the datetime from the
  numbers read. None stands for the ValueError.
\<close>

datatype fitem =
    FDir uchar
  | FWs
  | FLit uchar

fun parse_format :: "ustr \<Rightarrow> fitem list" where
  "parse_format [] = []"
| "parse_format [c] = (if isspace c then [FWs] else [FLit c])"
| "parse_format (c # d # cs) =
     (if c = 37 then FDir d # parse_format cs
      else if isspace c then
        (if isspace d then parse_format (d # cs) else FWs # parse_format (d # cs))
      else FLit c # parse_format (d # cs))"

definition R09 :: rx where "R09 = Atom (Range 48 57)"

fun directive_rx :: "uchar \<Rightarrow> rx option" where
  "directive_rx c =
     (if c = 100 then
        Some (rx_alts [Seq (Atom (Lit 51)) (Atom (Range 48 49)),
                       Seq (Atom (Range 49 50)) (Atom Digit),
                       Seq (Atom (Lit 48)) (Atom (Range 49 57)),
                       Atom (Range 49 57),
                       Seq (Atom (Lit 32)) (Atom (Range 49 57))])
      else if c = 109 then
        Some (rx_alts [Seq (Atom (Lit 49)) (Atom (Range 48 50)),
                       Seq (Atom (Lit 48)) (Atom (Range 49 57)),
                       Atom (Range 49 57)])
      else if c = 121 then Some (Seq (Atom Digit) (Atom Digit))
      else if c = 89 then Some (rx_seq [Atom Digit, Atom Digit, Atom Digit, Atom Digit])
      else if c = 72 then
        Some (rx_alts [Seq (Atom (Lit 50)) (Atom (Range 48 51)),
                       Seq (Atom (Range 48 49)) (Atom Digit),
                       Atom Digit])
      else if c = 77 then
        Some (rx_alts [Seq (Atom (Range 48 53)) (Atom Digit), Atom Digit])
      else if c = 83 then
        Some (rx_alts [Seq (Atom (Lit 54)) (Atom (Range 48 49)),
                       Seq (Atom (Range 48 53)) (Atom Digit),
                       Atom Digit])
      else None)"

text \<open>\<open>int(text)\<close> on text that a directive matched: surrounding whitespace is ignored.\<close>

definition py_int :: "pydb \<Rightarrow> ustr \<Rightarrow> int" where
  "py_int U text =
     foldl (\<lambda>a c. 10 * a + (case decimal_value U c of Some v \<Rightarrow> v | None \<Rightarrow> 0)) 0 (strip text)"

text \<open>
  The matches of a format from a position, each with the numbers read so far (an
  association list from directive to value, the latest first).
\<close>

fun strp_run :: "pydb \<Rightarrow> fitem list \<Rightarrow> (uchar \<times> int) list \<times> pos \<Rightarrow> ((uchar \<times> int) list \<times> pos) list" where
  "strp_run U [] st = [st]"
| "strp_run U (FLit c # items) (vals, p) =
     concat (map (\<lambda>p'. strp_run U items (vals, p')) (rx_run U True (Atom (Lit c)) p))"
| "strp_run U (FWs # items) (vals, p) =
     concat (map (\<lambda>p'. strp_run U items (vals, p')) (rx_run U True (Many1 Space) p))"
| "strp_run U (FDir c # items) (vals, p) =
     (case directive_rx c of
        None \<Rightarrow> []
      | Some r \<Rightarrow>
          concat (map (\<lambda>p'. strp_run U items
                         ((c, py_int U (take (length (snd p) - length (snd p')) (snd p))) # vals, p'))
                      (rx_run U True r p)))"

definition all_directives_known :: "fitem list \<Rightarrow> bool" where
  "all_directives_known items =
     list_all (\<lambda>i. case i of FDir c \<Rightarrow> directive_rx c \<noteq> None | _ \<Rightarrow> True) items"

definition lookup_default :: "(uchar \<times> int) list \<Rightarrow> uchar \<Rightarrow> int \<Rightarrow> int" where
  "lookup_default vals k dflt = (case map_of vals k of Some v \<Rightarrow> v | None \<Rightarrow> dflt)"

definition strptime :: "pydb \<Rightarrow> ustr \<Rightarrow> ustr \<Rightarrow> datetime option" where
  "strptime U data_string format =
     (let items = parse_format format in
      if \<not> all_directives_known items then None
      else
        (case strp_run U items ([], (None, data_string)) of
           [] \<Rightarrow> None
         | (vals, (prev, rest)) # _ \<Rightarrow>
             if rest \<noteq> [] then None
             else
               let year = (case map_of vals 89 of
                             Some v \<Rightarrow> v
                           | None \<Rightarrow>
                               (case map_of vals 121 of
                                  Some v \<Rightarrow> (if v \<le> 68 then v + 2000 else v + 1900)
                                | None \<Rightarrow> 1900))
               in mk_datetime year (lookup_default vals 109 1) (lookup_default vals 100 1)
                    (lookup_default vals 72 0) (lookup_default vals 77 0)
                    (lookup_default vals 83 0)))"

subsection \<open>The parsers of the source (lines 51 to 123)\<close>

definition DT_FORMATS :: "ustr list" where
  "DT_FORMATS = [
     ascii ''%d-%m-%y %H:%M'',
     ascii ''%d-%m-%Y %H:%M'',
     ascii ''%d/%m/%y %H:%M'',
     ascii ''%d/%m/%Y %H:%M'',
     ascii ''%Y-%m-%d %H:%M'',
     ascii ''%Y-%m-%d %H:%M:%S'',
     ascii ''%d-%m-%Y %H:%M:%S'',
     ascii ''%d/%m/%Y %H:%M:%S'']"

definition DATE_ONLY_FORMATS :: "ustr list" where
  "DATE_ONLY_FORMATS = [
     ascii ''%d-%m-%y'',
     ascii ''%d-%m-%Y'',
     ascii ''%d/%m/%y'',
     ascii ''%d/%m/%Y'']"

text \<open>
  The loop \<open>for fmt in formats: try: return strptime(s, fmt) except ValueError: pass\<close>:
  the first format that parses wins.
\<close>

fun try_formats :: "pydb \<Rightarrow> ustr \<Rightarrow> ustr list \<Rightarrow> datetime option" where
  "try_formats U s [] = None"
| "try_formats U s (fmt # fmts) =
     (case strptime U s fmt of
        Some x \<Rightarrow> Some x
      | None \<Rightarrow> try_formats U s fmts)"

definition is_empty :: "ustr option \<Rightarrow> bool" where
  "is_empty v = (case v of None \<Rightarrow> True | Some s \<Rightarrow> strip s = [])"

definition parse_dt :: "pydb \<Rightarrow> ustr \<Rightarrow> py_error + datetime" where
  "parse_dt U val =
     (let s = strip val in
      case try_formats U s DT_FORMATS of
        Some x \<Rightarrow> Inr x
      | None \<Rightarrow> Inl (ValueError (ascii ''Date/heure non reconnue: '' @ s)))"

definition parse_date_only :: "pydb \<Rightarrow> ustr \<Rightarrow> date option" where
  "parse_date_only U val =
     (let s = strip val in
      case try_formats U s DATE_ONLY_FORMATS of
        Some x \<Rightarrow> Some (dt_date x)
      | None \<Rightarrow> None)"

definition in_year :: "datetime option \<Rightarrow> int \<Rightarrow> bool" where
  "in_year dt year = (case dt of None \<Rightarrow> False | Some x \<Rightarrow> dt_year x = year)"

section \<open>Field extraction\<close>

text \<open>
  The dictionary of fields maps a column name to an optional string. A key that is
  missing (None) is kept apart from a key whose value is Python's None (Some None);
  \<open>f.get(k)\<close> gives None for both.
\<close>

type_synonym fieldmap = "ustr \<Rightarrow> ustr option option"

definition dict_get :: "fieldmap \<Rightarrow> ustr \<Rightarrow> ustr option" where
  "dict_get f k = (case f k of None \<Rightarrow> None | Some v \<Rightarrow> v)"

definition dict_set :: "fieldmap \<Rightarrow> ustr \<Rightarrow> ustr option \<Rightarrow> fieldmap" where
  "dict_set f k v = f(k := Some v)"

text \<open>The truth value of an optional string, and \<open>x or None\<close>.\<close>

definition truthy :: "ustr option \<Rightarrow> bool" where
  "truthy v = (case v of None \<Rightarrow> False | Some s \<Rightarrow> s \<noteq> [])"

definition or_none :: "ustr \<Rightarrow> ustr option" where
  "or_none x = (if x \<noteq> [] then Some x else None)"

definition KEY_ID :: ustr where
  "KEY_ID = ascii ''ID''"

definition KEY_DESCRIPTION :: ustr where
  "KEY_DESCRIPTION = ascii ''Description''"

definition KEY_CATEGORIE :: ustr where
  "KEY_CATEGORIE = ascii ''Cat'' @ [233] @ ascii ''gorie''"

definition KEY_BATIMENT :: ustr where
  "KEY_BATIMENT = ascii ''B'' @ [226] @ ascii ''timent/'' @ [201] @ ascii ''quipement''"

definition KEY_ADRESSE :: ustr where
  "KEY_ADRESSE = ascii ''Adresse''"

definition KEY_CREE_LE :: ustr where
  "KEY_CREE_LE = ascii ''Cr'' @ [233, 233] @ ascii '' le''"

definition KEY_ECHEANCE :: ustr where
  "KEY_ECHEANCE = [201] @ ascii ''ch'' @ [233] @ ascii ''ance''"

definition KEY_DEBUT :: ustr where
  "KEY_DEBUT = ascii ''D'' @ [233] @ ascii ''but planification''"

definition KEY_FIN :: ustr where
  "KEY_FIN = ascii ''Fin planification''"

definition KEY_AGENTS :: ustr where
  "KEY_AGENTS = ascii ''Agents/'' @ [201] @ ascii ''quipes''"

definition KEY_CONSIGNE :: ustr where
  "KEY_CONSIGNE = ascii ''Consigne''"

definition looks_like_betterstreet_id :: "pydb \<Rightarrow> ustr \<Rightarrow> bool" where
  "looks_like_betterstreet_id U v =
     (let t = strip v in startswith t BE_PREFIX \<or> re_bs_id U t)"

definition looks_like_address :: "pydb \<Rightarrow> ustr \<Rightarrow> bool" where
  "looks_like_address U v =
     (let t = strip v in
      if length t < 10 then False
      else if looks_like_betterstreet_id U t then False
      else if \<not> list_ex (isalpha U) t then False
      else if \<not> re_street U t then False
      else if \<not> list_ex (isdigit U) t then False
      else True)"

record ExtractResult =
  ex_fields :: fieldmap
  ex_aligned :: bool

subsection \<open>The aligned case (lines 199 to 203)\<close>

text \<open>\<open>dict(zip(keys, values))\<close>: the pairs are stored in order, a later one replacing an
  earlier one with the same key.\<close>

definition dict_store :: "(ustr \<Rightarrow> ustr option) \<Rightarrow> ustr \<times> ustr \<Rightarrow> (ustr \<Rightarrow> ustr option)" where
  "dict_store m kv = m(fst kv \<mapsto> snd kv)"

definition dict_zip :: "ustr list \<Rightarrow> ustr list \<Rightarrow> (ustr \<Rightarrow> ustr option)" where
  "dict_zip ks vs = foldl dict_store Map.empty (zip ks vs)"

definition aligned_fields :: "ustr list \<Rightarrow> ustr list \<Rightarrow> fieldmap" where
  "aligned_fields header_cols toks =
     (let data = dict_zip header_cols toks
      in (\<lambda>k. case data k of None \<Rightarrow> None | Some v \<Rightarrow> Some (or_none v)))"

subsection \<open>The broken case: anchors (lines 206 to 217)\<close>

text \<open>\<open>[i for i, t in enumerate(toks) if t and pattern.match(t)]\<close>.\<close>

definition matching_idxs :: "(ustr \<Rightarrow> bool) \<Rightarrow> ustr list \<Rightarrow> nat list" where
  "matching_idxs p toks = filter (\<lambda>i. toks ! i \<noteq> [] \<and> p (toks ! i)) [0..<length toks]"

record anchors =
  start_idx :: "nat option"
  end_idx :: "nat option"
  created_idx :: "nat option"
  echeance_idx :: "nat option"

definition find_anchors :: "pydb \<Rightarrow> ustr list \<Rightarrow> anchors" where
  "find_anchors U toks =
     (let dt_idxs = matching_idxs (re_dt U) toks;
          n = length dt_idxs;
          se = (if n \<ge> 2 then (Some (dt_idxs ! (n - 2)), Some (dt_idxs ! (n - 1)))
                else (None, None));
          date_idxs = matching_idxs (re_date U) toks;
          ce = (case fst se of
                  Some si \<Rightarrow>
                    (let prev = filter (\<lambda>i. i < si) date_idxs; k = length prev
                     in if k \<ge> 2 then (Some (prev ! (k - 2)), Some (prev ! (k - 1)))
                        else (None, None))
                | None \<Rightarrow>
                    (if length date_idxs \<ge> 2 then (Some (date_idxs ! 0), Some (date_idxs ! 1))
                     else (None, None)))
      in \<lparr>start_idx = fst se, end_idx = snd se, created_idx = fst ce, echeance_idx = snd ce\<rparr>)"

subsection \<open>The broken case: the fields (lines 219 to 303)\<close>

text \<open>Lines 222 to 236: created date, category and description.\<close>

definition stage_created :: "pydb \<Rightarrow> ustr list \<Rightarrow> nat option \<Rightarrow> fieldmap \<Rightarrow> fieldmap" where
  "stage_created U toks created f =
     (case created of
        Some ci \<Rightarrow>
          (let f1 = dict_set f KEY_CREE_LE (or_none (toks ! ci));
               f2 = (if int ci - 1 \<ge> 1 then
                       (let cand = strip (toks ! (ci - 1))
                        in if cand \<noteq> [] \<and> \<not> re_date U cand \<and> \<not> re_dt U cand
                           then dict_set f1 KEY_CATEGORIE (Some cand) else f1)
                     else f1)
           in if ci > 2 then
                (let desc = strip (py_join [SEMICOLON] (drop 1 (take (ci - 1) toks)))
                 in dict_set f2 KEY_DESCRIPTION (or_none desc))
              else if length toks > 1 then
                dict_set f2 KEY_DESCRIPTION (or_none (strip (toks ! 1)))
              else f2)
      | None \<Rightarrow>
          (if length toks > 1 then dict_set f KEY_DESCRIPTION (or_none (strip (toks ! 1)))
           else f))"

text \<open>Lines 238 to 244: due date and planning timestamps.\<close>

definition stage_planning :: "ustr list \<Rightarrow> anchors \<Rightarrow> fieldmap \<Rightarrow> fieldmap" where
  "stage_planning toks a f =
     (let f1 = (case echeance_idx a of
                  Some i \<Rightarrow> dict_set f KEY_ECHEANCE (or_none (toks ! i)) | None \<Rightarrow> f);
          f2 = (case start_idx a of
                  Some i \<Rightarrow> dict_set f1 KEY_DEBUT (or_none (toks ! i)) | None \<Rightarrow> f1)
      in (case end_idx a of
            Some i \<Rightarrow> dict_set f2 KEY_FIN (or_none (toks ! i)) | None \<Rightarrow> f2))"

text \<open>Lines 247 to 253: the agents column, after the end of planning or three after
  the due date.\<close>

definition agents_index :: "ustr list \<Rightarrow> anchors \<Rightarrow> nat option" where
  "agents_index toks a =
     (case end_idx a of
        Some e \<Rightarrow>
          (if e + 1 < length toks then Some (e + 1)
           else (case echeance_idx a of
                   Some c \<Rightarrow> (if c + 3 < length toks then Some (c + 3) else None)
                 | None \<Rightarrow> None))
      | None \<Rightarrow>
          (case echeance_idx a of
             Some c \<Rightarrow> (if c + 3 < length toks then Some (c + 3) else None)
           | None \<Rightarrow> None))"

definition stage_agents :: "ustr list \<Rightarrow> nat option \<Rightarrow> fieldmap \<Rightarrow> fieldmap" where
  "stage_agents toks agents f =
     (case agents of
        Some i \<Rightarrow> dict_set f KEY_AGENTS (or_none (toks ! i))
      | None \<Rightarrow> f)"

text \<open>Lines 256 to 266: address and building next to the due date.\<close>

definition neighbour_address :: "pydb \<Rightarrow> ustr list \<Rightarrow> nat \<Rightarrow> fieldmap \<Rightarrow> fieldmap" where
  "neighbour_address U toks ei f =
     (let addr_i = int ei - 1
      in if 0 \<le> addr_i \<and> addr_i < int (length toks) then
           (let cand_addr = strip (toks ! nat addr_i)
            in if cand_addr \<noteq> [] \<and> looks_like_address U cand_addr
               then dict_set f KEY_ADRESSE (Some cand_addr) else f)
         else f)"

definition neighbour_batiment :: "pydb \<Rightarrow> ustr list \<Rightarrow> nat \<Rightarrow> fieldmap \<Rightarrow> fieldmap" where
  "neighbour_batiment U toks ei f =
     (let bat_i = int ei - 2
      in if 0 \<le> bat_i \<and> bat_i < int (length toks) then
           (let cand_bat = strip (toks ! nat bat_i)
            in if cand_bat \<noteq> [] \<and> \<not> looks_like_betterstreet_id U cand_bat
                  \<and> \<not> looks_like_address U cand_bat \<and> \<not> re_date U cand_bat
                  \<and> \<not> re_dt U cand_bat
               then dict_set f KEY_BATIMENT (Some cand_bat) else f)
         else f)"

definition stage_echeance_neighbours :: "pydb \<Rightarrow> ustr list \<Rightarrow> nat option \<Rightarrow> fieldmap \<Rightarrow> fieldmap" where
  "stage_echeance_neighbours U toks echeance f =
     (case echeance of
        None \<Rightarrow> f
      | Some ei \<Rightarrow> neighbour_batiment U toks ei (neighbour_address U toks ei f))"

text \<open>Lines 268 to 272: otherwise the first token that looks like an address.\<close>

definition stage_address_scan :: "pydb \<Rightarrow> ustr list \<Rightarrow> fieldmap \<Rightarrow> fieldmap" where
  "stage_address_scan U toks f =
     (if \<not> truthy (dict_get f KEY_ADRESSE) then
        (case find (looks_like_address U) toks of
           Some tok \<Rightarrow> dict_set f KEY_ADRESSE (Some (strip tok))
         | None \<Rightarrow> f)
      else f)"

text \<open>Lines 279 to 285 and 295 to 301: the candidates the two backward scans accept.\<close>

definition significant :: "pydb \<Rightarrow> fieldmap \<Rightarrow> ustr \<Rightarrow> bool" where
  "significant U f cand =
     (if cand = [] then False
      else if looks_like_betterstreet_id U cand \<or> looks_like_address U cand
              \<or> re_date U cand \<or> re_dt U cand then False
      else if truthy (dict_get f KEY_DESCRIPTION) \<and> Some cand = dict_get f KEY_DESCRIPTION
      then False
      else True)"

fun first_index :: "('a \<Rightarrow> bool) \<Rightarrow> 'a list \<Rightarrow> nat option" where
  "first_index p [] = None"
| "first_index p (x # xs) =
     (if p x then Some 0 else (case first_index p xs of None \<Rightarrow> None | Some i \<Rightarrow> Some (Suc i)))"

text \<open>Lines 275 to 289: the building, searched in the seven tokens before the address.\<close>

definition stage_batiment_fallback :: "pydb \<Rightarrow> ustr list \<Rightarrow> fieldmap \<Rightarrow> fieldmap" where
  "stage_batiment_fallback U toks f =
     (if \<not> truthy (dict_get f KEY_BATIMENT) \<and> truthy (dict_get f KEY_ADRESSE) then
        (case dict_get f KEY_ADRESSE of
           None \<Rightarrow> f
         | Some adresse \<Rightarrow>
             (case first_index (\<lambda>t. strip t = strip adresse) toks of
                None \<Rightarrow> f
              | Some addr_pos \<Rightarrow>
                  (case find (significant U f)
                          (map strip (rev (drop (addr_pos - 7) (take addr_pos toks)))) of
                     Some cand \<Rightarrow> dict_set f KEY_BATIMENT (Some cand)
                   | None \<Rightarrow> f)))
      else f)"

text \<open>Lines 292 to 303: the instruction, the last significant token after the agents.\<close>

definition stage_consigne :: "pydb \<Rightarrow> ustr list \<Rightarrow> nat option \<Rightarrow> fieldmap \<Rightarrow> fieldmap" where
  "stage_consigne U toks agents f =
     (case agents of
        None \<Rightarrow> f
      | Some ai \<Rightarrow>
          (if ai + 1 < length toks then
             (case find (significant U f) (map strip (rev (drop (ai + 1) toks))) of
                Some t \<Rightarrow> dict_set f KEY_CONSIGNE (Some t)
              | None \<Rightarrow> f)
           else f))"

definition heuristic_fields :: "pydb \<Rightarrow> ustr \<Rightarrow> ustr list \<Rightarrow> ustr list \<Rightarrow> fieldmap" where
  "heuristic_fields U rid toks header_cols =
     (let a = find_anchors U toks;
          f = (\<lambda>k. if k \<in> set header_cols then Some None else None);
          f = dict_set f KEY_ID (Some rid);
          f = stage_created U toks (created_idx a) f;
          f = stage_planning toks a f;
          agents = agents_index toks a;
          f = stage_agents toks agents f;
          f = stage_echeance_neighbours U toks (echeance_idx a) f;
          f = stage_address_scan U toks f;
          f = stage_batiment_fallback U toks f
      in stage_consigne U toks agents f)"

text \<open>Line 190: \<open>[t.strip() for t in record_line.split(delimiter)]\<close>.\<close>

definition tokenize :: "uchar \<Rightarrow> ustr \<Rightarrow> ustr list" where
  "tokenize delimiter record_line = map strip (py_split delimiter record_line)"

definition extract_fields :: "pydb \<Rightarrow> ustr \<Rightarrow> ustr list \<Rightarrow> uchar \<Rightarrow> ExtractResult option" where
  "extract_fields U record_line header_cols delimiter =
     (let toks = tokenize delimiter record_line in
      if toks = [] then None
      else
        let rid = clean_first (hd toks) in
        if \<not> startswith rid BE_PREFIX then None
        else if length toks = length header_cols then
          Some \<lparr>ex_fields = aligned_fields header_cols toks, ex_aligned = True\<rparr>
        else
          Some \<lparr>ex_fields = heuristic_fields U rid toks header_cols, ex_aligned = False\<rparr>)"

section \<open>The main loop (lines 327 to 449)\<close>

text \<open>
  The rows handed to the report. The source renders the duration with \<open>str\<close> and the
  corrected end of an anomaly with \<open>strftime\<close>; the rows here keep the values rendered.
\<close>

record PlanningRow =
  r_ID :: "ustr option"
  r_Description :: "ustr option"
  r_Categorie :: "ustr option"
  r_Batiment :: "ustr option"
  r_Adresse :: "ustr option"
  r_Date_Debut :: "date option"
  r_Heure_Debut :: "time option"
  r_Date_Fin :: "date option"
  r_Heure_Fin :: "time option"
  r_Consigne :: "ustr option"
  r_Agents :: "ustr option"
  r_Duree :: "timedelta option"

record AnomalyRow =
  a_ID :: "ustr option"
  a_Debut_raw :: "ustr option"
  a_Fin_raw :: "ustr option"
  a_Fin_corrigee :: "datetime option"
  a_Duree_corrigee :: "timedelta option"
  a_Notes :: ustr

record run_state =
  records :: "PlanningRow list"
  anomalies :: "AnomalyRow list"
  kept :: nat
  skipped_other_year :: nat
  aligned_count :: nat
  broken_count :: nat

definition init_state :: run_state where
  "init_state = \<lparr>records = [], anomalies = [], kept = 0, skipped_other_year = 0,
                  aligned_count = 0, broken_count = 0\<rparr>"

definition NOTE_START_MISSING :: ustr where
  "NOTE_START_MISSING = ascii ''Start missing''"

definition NOTE_END_MISSING :: ustr where
  "NOTE_END_MISSING = ascii ''End missing''"

definition NOTE_AGENTS_MISSING :: ustr where
  "NOTE_AGENTS_MISSING = KEY_AGENTS @ ascii '' missing''"

definition NOTE_SHIFTED :: ustr where
  "NOTE_SHIFTED = ascii ''End time shifted +12h (12h ambiguity forced)''"

definition NOTE_NEGATIVE :: ustr where
  "NOTE_NEGATIVE = ascii ''Duration still negative after correction''"

definition NOTE_SEP :: ustr where
  "NOTE_SEP = ascii '' | ''"

text \<open>
  Lines 370 to 380: \<open>try: if not is_empty(raw): dt = parse_dt(str(raw))\<close> with
  \<open>except Exception as e: notes.append(f"... parse error: {e}")\<close>; the prefix is
  \<open>"Start parse error: "\<close> or \<open>"End parse error: "\<close>.
\<close>

definition try_parse_dt :: "pydb \<Rightarrow> ustr \<Rightarrow> ustr option \<Rightarrow> datetime option \<times> ustr list" where
  "try_parse_dt U note_prefix raw =
     (case raw of
        None \<Rightarrow> (None, [])
      | Some v \<Rightarrow>
          (if \<not> is_empty raw then
             (case parse_dt U v of
                Inr x \<Rightarrow> (Some x, [])
              | Inl e \<Rightarrow> (None, [note_prefix @ exc_str e]))
           else (None, [])))"

record parsed =
  p_start_raw :: "ustr option"
  p_end_raw :: "ustr option"
  p_agents :: "ustr option"
  p_start_dt :: "datetime option"
  p_end_dt :: "datetime option"
  p_created_date :: "date option"
  p_notes :: "ustr list"

text \<open>Lines 359 to 390.\<close>

definition parse_record :: "pydb \<Rightarrow> fieldmap \<Rightarrow> parsed" where
  "parse_record U f =
     (let start_raw = dict_get f KEY_DEBUT;
          end_raw = dict_get f KEY_FIN;
          created_raw = dict_get f KEY_CREE_LE;
          agents_equipes = dict_get f KEY_AGENTS;
          ps = try_parse_dt U (ascii ''Start parse error: '') start_raw;
          pe = try_parse_dt U (ascii ''End parse error: '') end_raw;
          created_date = (case created_raw of
                            None \<Rightarrow> None
                          | Some v \<Rightarrow> (if \<not> is_empty created_raw then parse_date_only U v else None));
          notes = snd ps @ snd pe
            @ (if fst ps = None then [NOTE_START_MISSING] else [])
            @ (if fst pe = None then [NOTE_END_MISSING] else [])
            @ (if is_empty agents_equipes then [NOTE_AGENTS_MISSING] else [])
      in \<lparr>p_start_raw = start_raw, p_end_raw = end_raw, p_agents = agents_equipes,
          p_start_dt = fst ps, p_end_dt = fst pe, p_created_date = created_date,
          p_notes = notes\<rparr>)"

text \<open>Lines 393 to 396: the year filter.\<close>

definition keep_rule :: "int \<Rightarrow> parsed \<Rightarrow> bool" where
  "keep_rule year p =
     (let planned_in_year = (in_year (p_start_dt p) year \<or> in_year (p_end_dt p) year);
          created_in_year = (case p_created_date p of None \<Rightarrow> False | Some c \<Rightarrow> d_year c = year);
          has_planning = (p_start_dt p \<noteq> None \<or> p_end_dt p \<noteq> None)
      in if has_planning then planned_in_year else created_in_year)"

text \<open>Lines 405 to 408: the forced 12 hour correction; the addition can overflow.\<close>

definition correct_end :: "parsed \<Rightarrow> py_error + (datetime option \<times> ustr list)" where
  "correct_end p =
     (case (p_start_dt p, p_end_dt p) of
        (Some s, Some e) \<Rightarrow>
          (if dt_less e s then
             (case dt_add e (hours 12) of
                Inl err \<Rightarrow> Inl err
              | Inr e' \<Rightarrow> Inr (Some e', p_notes p @ [NOTE_SHIFTED]))
           else Inr (Some e, p_notes p))
      | _ \<Rightarrow> Inr (p_end_dt p, p_notes p))"

text \<open>Lines 410 to 416: the duration and its note.\<close>

definition duration_of :: "datetime option \<Rightarrow> datetime option \<Rightarrow> ustr list \<Rightarrow> timedelta option \<times> ustr list" where
  "duration_of start_dt end_dt_corrected notes =
     (case (start_dt, end_dt_corrected) of
        (Some s, Some e) \<Rightarrow>
          (let duration_td = dt_sub e s
           in (Some duration_td, if duration_td < 0 then notes @ [NOTE_NEGATIVE] else notes))
      | _ \<Rightarrow> (None, notes))"

text \<open>Lines 421 to 426: the test on the joined notes.\<close>

definition is_anomaly :: "ustr \<Rightarrow> bool" where
  "is_anomaly notes_joined =
     (contains notes_joined (ascii ''parse error'')
      \<or> contains notes_joined (ascii ''missing'')
      \<or> contains notes_joined (ascii ''End time shifted +12h'')
      \<or> contains notes_joined (ascii ''Duration still negative''))"

definition planning_row :: "fieldmap \<Rightarrow> parsed \<Rightarrow> datetime option \<Rightarrow> timedelta option \<Rightarrow> PlanningRow" where
  "planning_row f p end_dt_corrected duration =
     \<lparr>r_ID = dict_get f KEY_ID,
      r_Description = dict_get f KEY_DESCRIPTION,
      r_Categorie = dict_get f KEY_CATEGORIE,
      r_Batiment = dict_get f KEY_BATIMENT,
      r_Adresse = dict_get f KEY_ADRESSE,
      r_Date_Debut = map_option dt_date (p_start_dt p),
      r_Heure_Debut = map_option dt_time (p_start_dt p),
      r_Date_Fin = map_option dt_date end_dt_corrected,
      r_Heure_Fin = map_option dt_time end_dt_corrected,
      r_Consigne = dict_get f KEY_CONSIGNE,
      r_Agents = p_agents p,
      r_Duree = duration\<rparr>"

definition anomaly_row :: "fieldmap \<Rightarrow> parsed \<Rightarrow> datetime option \<Rightarrow> timedelta option \<Rightarrow> ustr \<Rightarrow> AnomalyRow" where
  "anomaly_row f p end_dt_corrected duration notes_joined =
     \<lparr>a_ID = dict_get f KEY_ID,
      a_Debut_raw = p_start_raw p,
      a_Fin_raw = p_end_raw p,
      a_Fin_corrigee = end_dt_corrected,
      a_Duree_corrigee = duration,
      a_Notes = notes_joined\<rparr>"

text \<open>One pass of \<open>for record_line in rebuilt_lines[1:]\<close>.\<close>

definition loop_body :: "pydb \<Rightarrow> int \<Rightarrow> ustr list \<Rightarrow> run_state \<Rightarrow> ustr \<Rightarrow> py_error + run_state" where
  "loop_body U year header_cols st record_line =
     (case extract_fields U record_line header_cols SEMICOLON of
        None \<Rightarrow> Inr st
      | Some ex \<Rightarrow>
          (let f = ex_fields ex;
               st = (if ex_aligned ex then st\<lparr>aligned_count := aligned_count st + 1\<rparr>
                     else st\<lparr>broken_count := broken_count st + 1\<rparr>);
               p = parse_record U f
           in if \<not> keep_rule year p then
                Inr (st\<lparr>skipped_other_year := skipped_other_year st + 1\<rparr>)
              else
                (let st = st\<lparr>kept := kept st + 1\<rparr> in
                 case correct_end p of
                   Inl err \<Rightarrow> Inl err
                 | Inr (end_dt_corrected, notes) \<Rightarrow>
                     (let dn = duration_of (p_start_dt p) end_dt_corrected notes;
                          notes_joined = py_join NOTE_SEP (snd dn);
                          st = (if is_anomaly notes_joined then
                                  st\<lparr>anomalies := anomalies st
                                        @ [anomaly_row f p end_dt_corrected (fst dn) notes_joined]\<rparr>
                                else st)
                      in Inr (st\<lparr>records := records st
                                    @ [planning_row f p end_dt_corrected (fst dn)]\<rparr>)))))"

fun main_loop :: "pydb \<Rightarrow> int \<Rightarrow> ustr list \<Rightarrow> run_state \<Rightarrow> ustr list \<Rightarrow> py_error + run_state" where
  "main_loop U year header_cols st [] = Inr st"
| "main_loop U year header_cols st (record_line # rest) =
     (case loop_body U year header_cols st record_line of
        Inl err \<Rightarrow> Inl err
      | Inr st' \<Rightarrow> main_loop U year header_cols st' rest)"

text \<open>
  \<open>main\<close> from the lines of the file to the rows and counters it hands to the report
  (reading the file before, sorting and writing the workbook after, are left out).
\<close>

definition EMPTY_MESSAGE :: ustr where
  "EMPTY_MESSAGE = ascii ''Aucune ligne reconstruite (CSV vide ?).''"

definition main_core :: "pydb \<Rightarrow> int \<Rightarrow> ustr list \<Rightarrow> py_error + run_state" where
  "main_core U year raw_lines =
     (let rebuilt_lines = rebuild_records_by_id raw_lines SEMICOLON in
      if rebuilt_lines = [] then Inl (ValueError EMPTY_MESSAGE)
      else
        (let header_cols = tokenize SEMICOLON (hd rebuilt_lines)
         in main_loop U year header_cols init_state (tl rebuilt_lines)))"

section \<open>Notions used to state the properties\<close>

text \<open>A line that opens a record, and a record that begins with the text of a line.\<close>

definition opens :: "uchar \<Rightarrow> ustr \<Rightarrow> bool" where
  "opens d l = (\<not> is_blank l \<and> starts_new_record d l)"

definition opened_by :: "ustr \<Rightarrow> ustr \<Rightarrow> bool" where
  "opened_by l r = prefix (rstrip_chars [NEWLINE] l) r"

text \<open>Sample inputs for the concrete runs.\<close>

definition W1_HEADER :: "ustr list" where
  "W1_HEADER = [KEY_ID, KEY_DESCRIPTION, KEY_CATEGORIE]"

definition W1_LINE :: ustr where
  "W1_LINE = [34] @ ascii ''BE-1001-'' @ [34] @ ascii ''; Fuite toiture ;''"

text \<open>The value an extraction gives for a key (None when there is no extraction).\<close>

definition field_of :: "ExtractResult option \<Rightarrow> ustr \<Rightarrow> ustr option" where
  "field_of r k = (case r of None \<Rightarrow> None | Some e \<Rightarrow> dict_get (ex_fields e) k)"

text \<open>The token two places before the due date, when it qualifies as a building.\<close>

definition batiment_candidate :: "pydb \<Rightarrow> ustr list \<Rightarrow> nat \<Rightarrow> ustr option" where
  "batiment_candidate U toks ei =
     (if 2 \<le> ei \<and> ei - 2 < length toks then
        (let cand = strip (toks ! (ei - 2))
         in if cand \<noteq> [] \<and> \<not> looks_like_betterstreet_id U cand \<and> \<not> looks_like_address U cand
               \<and> \<not> re_date U cand \<and> \<not> re_dt U cand
            then Some cand else None)
      else None)"

definition W10_LINE :: ustr where
  "W10_LINE = ascii ''BE-1;Building X;foo;01-01-25;02-01-25''"

definition W10_LINE_NO_DATE :: ustr where
  "W10_LINE_NO_DATE = ascii ''BE-2;Building X;foo;bar''"

definition W3_HEADER :: "ustr list" where
  "W3_HEADER = [KEY_ID, KEY_DEBUT, KEY_FIN]"

definition W3_HEADER_LINE :: ustr where
  "W3_HEADER_LINE = py_join [SEMICOLON] W3_HEADER"

definition W3_LINE :: ustr where
  "W3_LINE = ascii ''BE-1;31-12-24 14:00;31-12-24 13:00''"

definition W4_LINE :: ustr where
  "W4_LINE = ascii ''BE-2;02-01-25 10:00;01-01-25 10:00''"

text \<open>
  The ID a record line yields: nothing without a valid first token; on the aligned path
  the value the header maps to \<open>"ID"\<close>; on the broken path the cleaned first token.
\<close>

definition id_of_line :: "pydb \<Rightarrow> ustr list \<Rightarrow> ustr \<Rightarrow> ustr option \<Rightarrow> bool" where
  "id_of_line U header_cols line rid =
     (case extract_fields U line header_cols SEMICOLON of
        None \<Rightarrow> False
      | Some ex \<Rightarrow>
          startswith (clean_first (hd (tokenize SEMICOLON line))) BE_PREFIX
          \<and> rid = (if ex_aligned ex
                   then dict_get (aligned_fields header_cols (tokenize SEMICOLON line)) KEY_ID
                   else Some (clean_first (hd (tokenize SEMICOLON line)))))"

definition W2_LINE :: ustr where
  "W2_LINE = [34] @ ascii ''BE-1'' @ [34] @ ascii '';01-01-25 10:00;01-01-25 11:00''"

definition W2_HEADER_LINE_NO_ID :: ustr where
  "W2_HEADER_LINE_NO_ID = py_join [SEMICOLON] [ascii ''Ref'', KEY_DEBUT, KEY_FIN]"

definition W7_LINE :: ustr where
  "W7_LINE = ascii ''BE-3;demain matin;01-01-25 11:00''"

definition W8_LINE :: ustr where
  "W8_LINE = ascii ''BE-4;01-01-25 10:00;''"

definition W8_HEADER :: "ustr list" where
  "W8_HEADER = [KEY_ID, KEY_DEBUT, KEY_FIN, KEY_AGENTS]"

definition W8_LINE_OK :: ustr where
  "W8_LINE_OK = ascii ''BE-5;01-01-25 10:00;01-01-25 11:00;Equipe A''"

definition W8_LINE_BAD :: ustr where
  "W8_LINE_BAD = ascii ''BE-6;02-01-25 10:00;01-01-25 10:00;''"

definition W4_LINE_OVERFLOW :: ustr where
  "W4_LINE_OVERFLOW = ascii ''BE-9;31/12/9999 14:00;31/12/9999 13:00''"

definition W8_HEADER_LINE :: ustr where
  "W8_HEADER_LINE = py_join [SEMICOLON] W8_HEADER"

definition W8_LINE_OVERFLOW :: ustr where
  "W8_LINE_OVERFLOW = ascii ''BE-7;31/12/9999 14:00;31/12/9999 13:00;''"

text \<open>A record as the reassembler leaves it: not blank, opening with a record id, and
  without trailing newline.\<close>

definition settled :: "uchar \<Rightarrow> ustr \<Rightarrow> bool" where
  "settled d r = (\<not> is_blank r \<and> starts_new_record d r \<and> rstrip_chars [NEWLINE] r = r)"

section \<open>Reassembly: properties\<close>

lemma rstrip_by_decomp: "\<exists>ws. s = rstrip_by p s @ ws \<and> (\<forall>c\<in>set ws. p c)"
proof -
  have "rev s = takeWhile p (rev s) @ dropWhile p (rev s)" by simp
  then have "s = rev (dropWhile p (rev s)) @ rev (takeWhile p (rev s))"
    by (metis rev_append rev_rev_ident)
  moreover have "\<forall>c\<in>set (rev (takeWhile p (rev s))). p c"
    by (auto dest: set_takeWhileD)
  ultimately show ?thesis unfolding rstrip_by_def by blast
qed

lemma rstrip_by_append_all: "(\<forall>c\<in>set ws. p c) \<Longrightarrow> rstrip_by p (y @ ws) = rstrip_by p y"
proof -
  assume a: "\<forall>c\<in>set ws. p c"
  have "dropWhile p (rev ws @ rev y) = dropWhile p (rev y)"
    by (rule dropWhile_append2) (use a in auto)
  then show ?thesis by (simp add: rstrip_by_def)
qed

lemma strip_by_append_all: "(\<forall>c\<in>set ws. p c) \<Longrightarrow> strip_by p (y @ ws) = strip_by p y"
  by (simp add: strip_by_def rstrip_by_append_all)

lemma is_blank_rstrip_nl: "is_blank (rstrip_chars [NEWLINE] l) = is_blank l"
proof -
  obtain ws where l: "l = rstrip_chars [NEWLINE] l @ ws" and ws: "\<forall>c\<in>set ws. c \<in> set [NEWLINE]"
    unfolding rstrip_chars_def using rstrip_by_decomp[of l "\<lambda>c. c \<in> set [NEWLINE]"] by blast
  from ws have "\<forall>c\<in>set ws. isspace c" by (auto simp: NEWLINE_def isspace_def)
  then have "strip (rstrip_chars [NEWLINE] l @ ws) = strip (rstrip_chars [NEWLINE] l)"
    unfolding strip_def by (rule strip_by_append_all)
  with l show ?thesis unfolding is_blank_def by simp
qed

lemma clean_first_append_nl:
  assumes "\<forall>c\<in>set ws. c = NEWLINE"
  shows "clean_first (y @ ws) = clean_first y"
proof -
  from assms have f: "remove_char BOM (y @ ws) = remove_char BOM y @ ws"
    by (auto simp: remove_char_def NEWLINE_def BOM_def filter_id_conv)
  from assms have "\<forall>c\<in>set ws. isspace c" by (auto simp: NEWLINE_def isspace_def)
  then have "strip (remove_char BOM y @ ws) = strip (remove_char BOM y)"
    unfolding strip_def by (rule strip_by_append_all)
  with f show ?thesis by (simp add: clean_first_def)
qed

lemma starts_new_record_rstrip_nl:
  "starts_new_record d (rstrip_chars [NEWLINE] l) = starts_new_record d l"
proof -
  define y where "y = rstrip_chars [NEWLINE] l"
  obtain ws where l: "l = y @ ws" and ws: "\<forall>c\<in>set ws. c \<in> set [NEWLINE]"
    unfolding y_def rstrip_chars_def using rstrip_by_decomp[of l "\<lambda>c. c \<in> set [NEWLINE]"] by blast
  have "clean_first (first_field d (y @ ws)) = clean_first (first_field d y)"
  proof (cases "d \<in> set y")
    case True
    then have "first_field d (y @ ws) = first_field d y"
      unfolding first_field_def by (intro takeWhile_append1[of d]) auto
    then show ?thesis by simp
  next
    case False
    then have "takeWhile (\<lambda>c. c \<noteq> d) (y @ ws) = y @ takeWhile (\<lambda>c. c \<noteq> d) ws"
      by (intro takeWhile_append2) auto
    moreover from False have "takeWhile (\<lambda>c. c \<noteq> d) y = y"
      by (intro takeWhile_eq_all_conv[THEN iffD2]) auto
    ultimately have "first_field d (y @ ws) = y @ takeWhile (\<lambda>c. c \<noteq> d) ws" and "first_field d y = y"
      unfolding first_field_def by auto
    moreover have "\<forall>c\<in>set (takeWhile (\<lambda>c. c \<noteq> d) ws). c = NEWLINE"
      using ws by (auto dest: set_takeWhileD)
    ultimately show ?thesis by (simp add: clean_first_append_nl)
  qed
  with l show ?thesis unfolding starts_new_record_def y_def by metis
qed


lemma flush_step_open:
  assumes "\<not> is_blank l" "starts_new_record d l"
  shows "flush_current (rebuild_step d st l) = flush_current st @ [rstrip_chars [NEWLINE] l]"
  using assms
  by (cases st) (auto simp: rebuild_step_def flush_current_def Let_def is_blank_rstrip_nl
      starts_new_record_rstrip_nl split: option.splits)

lemma flush_foldl_open:
  assumes "\<forall>l\<in>set ls. \<not> is_blank l \<and> starts_new_record d l"
  shows "flush_current (foldl (rebuild_step d) st ls) =
         flush_current st @ map (rstrip_chars [NEWLINE]) ls"
  using assms
proof (induction ls arbitrary: st)
  case Nil
  then show ?case by simp
next
  case (Cons l ls)
  then show ?case by (simp add: flush_step_open)
qed

lemma dropWhile_blank_prefix:
  assumes "\<forall>b\<in>set bs. is_blank b" "\<not> is_blank h"
  shows "dropWhile is_blank (bs @ h # ls) = h # ls"
  using assms by (induction bs) auto

lemma flush_step_cases:
  "flush_current (rebuild_step d st l) =
     (if \<not> is_blank l \<and> starts_new_record d l then flush_current st @ [rstrip_chars [NEWLINE] l]
      else if is_blank l \<or> snd st = None then flush_current st
      else butlast (flush_current st) @ [last (flush_current st) @ [SPACE] @ rstrip_chars [NEWLINE] l])"
  by (cases st) (auto simp: rebuild_step_def flush_current_def Let_def is_blank_rstrip_nl
      starts_new_record_rstrip_nl split: option.splits)

lemma rstrip_rstrip: "rstrip_chars [NEWLINE] (rstrip_chars [NEWLINE] l) = rstrip_chars [NEWLINE] l"
  by (simp add: rstrip_chars_def rstrip_by_def)

lemma strip_by_Nil_iff: "strip_by p s = [] \<longleftrightarrow> (\<forall>c\<in>set s. p c)"
proof
  assume a: "strip_by p s = []"
  then have "\<forall>c\<in>set (rev (dropWhile p (rev s))). p c"
    unfolding strip_by_def lstrip_by_def rstrip_by_def by (simp only: dropWhile_eq_Nil_conv)
  then have "\<forall>c\<in>set (dropWhile p (rev s)). p c" by simp
  then have "dropWhile p (rev s) = []"
    by (metis dropWhile_eq_Nil_conv dropWhile_idem)
  then show "\<forall>c\<in>set s. p c" by (simp add: dropWhile_eq_Nil_conv)
next
  assume "\<forall>c\<in>set s. p c"
  then have e: "dropWhile p (rev s) = []" by simp
  show "strip_by p s = []"
    unfolding strip_by_def lstrip_by_def rstrip_by_def e by simp
qed

lemma is_blank_iff: "is_blank s \<longleftrightarrow> (\<forall>c\<in>set s. isspace c)"
  by (simp add: is_blank_def strip_def strip_by_Nil_iff)

lemma rstrip_by_fix: "s = [] \<or> \<not> p (last s) \<Longrightarrow> rstrip_by p s = s"
  by (cases s rule: rev_cases) (auto simp: rstrip_by_def)

lemma rstrip_by_last: "rstrip_by p s \<noteq> [] \<Longrightarrow> \<not> p (last (rstrip_by p s))"
proof -
  assume a: "rstrip_by p s \<noteq> []"
  then have ne: "dropWhile p (rev s) \<noteq> []" by (simp add: rstrip_by_def)
  then have "\<not> p (hd (dropWhile p (rev s)))" by (rule hd_dropWhile)
  with ne show ?thesis by (simp add: rstrip_by_def last_rev)
qed

lemma strip_by_prefix_mono: "prefix (strip_by p z) (strip_by p (z @ w))"
proof (cases "\<forall>c\<in>set w. p c")
  case True
  then show ?thesis by (simp add: strip_by_append_all)
next
  case False
  then have r: "rstrip_by p (z @ w) = z @ rstrip_by p w"
    unfolding rstrip_by_def
    by (simp add: dropWhile_append) (metis dropWhile_eq_Nil_conv set_rev)
  show ?thesis
  proof (cases "\<forall>c\<in>set z. p c")
    case True
    then have "strip_by p z = []" by (simp add: strip_by_Nil_iff)
    then show ?thesis by simp
  next
    case F2: False
    then have l: "dropWhile p (z @ rstrip_by p w) = dropWhile p z @ rstrip_by p w"
      by (auto simp: dropWhile_append)
    obtain ws where z: "z = rstrip_by p z @ ws" and ws: "\<forall>c\<in>set ws. p c"
      using rstrip_by_decomp[of z p] by blast
    from F2 z ws have "\<not> (\<forall>c\<in>set (rstrip_by p z). p c)"
      by (metis Un_iff set_append)
    then have "dropWhile p (rstrip_by p z @ ws) = dropWhile p (rstrip_by p z) @ ws"
      by (auto simp: dropWhile_append)
    with z have "dropWhile p z = strip_by p z @ ws"
      by (simp add: strip_by_def lstrip_by_def)
    with l r show ?thesis
      by (simp add: strip_by_def lstrip_by_def)
  qed
qed

lemma clean_first_prefix_mono: "prefix (clean_first a) (clean_first (a @ b))"
proof -
  have "prefix (strip (remove_char BOM a)) (strip (remove_char BOM (a @ b)))"
    by (simp add: strip_def remove_char_def strip_by_prefix_mono)
  then obtain w1 where w1: "strip (remove_char BOM (a @ b)) = strip (remove_char BOM a) @ w1"
    by (auto simp: prefix_def)
  have "prefix (strip_chars [DQUOTE] (strip (remove_char BOM a)))
      (strip_chars [DQUOTE] (strip (remove_char BOM a) @ w1))"
    by (simp add: strip_chars_def strip_by_prefix_mono)
  then obtain w2 where w2: "strip_chars [DQUOTE] (strip (remove_char BOM a) @ w1)
      = strip_chars [DQUOTE] (strip (remove_char BOM a)) @ w2"
    by (auto simp: prefix_def)
  have "prefix (strip_chars [SQUOTE] (strip_chars [DQUOTE] (strip (remove_char BOM a))))
      (strip_chars [SQUOTE] (strip_chars [DQUOTE] (strip (remove_char BOM a)) @ w2))"
    by (simp add: strip_chars_def strip_by_prefix_mono)
  then show ?thesis
    by (simp add: clean_first_def w1 w2)
qed

lemma starts_new_record_append:
  assumes "starts_new_record d c"
  shows "starts_new_record d (c @ y)"
proof (cases "d \<in> set c")
  case True
  then have "first_field d (c @ y) = first_field d c"
    unfolding first_field_def by (intro takeWhile_append1[of d]) auto
  with assms show ?thesis by (simp add: starts_new_record_def)
next
  case False
  then have a: "first_field d (c @ y) = c @ takeWhile (\<lambda>x. x \<noteq> d) y"
    unfolding first_field_def by (intro takeWhile_append2) auto
  from False have b: "first_field d c = c"
    unfolding first_field_def by (intro takeWhile_eq_all_conv[THEN iffD2]) auto
  have "prefix (clean_first (first_field d c)) (clean_first (first_field d (c @ y)))"
    unfolding a b by (rule clean_first_prefix_mono)
  with assms show ?thesis
    unfolding starts_new_record_def startswith_def by (rule prefix_order.trans)
qed

lemma nonblank_rstrip_last:
  assumes "\<not> is_blank (rstrip_chars [NEWLINE] raw)"
  shows "rstrip_chars [NEWLINE] raw \<noteq> []" "last (rstrip_chars [NEWLINE] raw) \<noteq> NEWLINE"
proof -
  from assms show ne: "rstrip_chars [NEWLINE] raw \<noteq> []" by (auto simp: is_blank_iff)
  then show "last (rstrip_chars [NEWLINE] raw) \<noteq> NEWLINE"
    using rstrip_by_last[of "\<lambda>c. c \<in> set [NEWLINE]" raw] by (simp add: rstrip_chars_def)
qed

lemma settled_step:
  assumes "\<forall>r\<in>set (tl (fst st)). settled d r" "\<forall>c. snd st = Some c \<longrightarrow> settled d c" "fst st \<noteq> []"
  shows "(\<forall>r\<in>set (tl (fst (rebuild_step d st raw))). settled d r)
     \<and> (\<forall>c. snd (rebuild_step d st raw) = Some c \<longrightarrow> settled d c)
     \<and> fst (rebuild_step d st raw) \<noteq> []"
proof (cases st)
  case (Pair rebuilt current)
  let ?line = "rstrip_chars [NEWLINE] raw"
  show ?thesis
  proof (cases "is_blank ?line")
    case True
    with Pair assms show ?thesis by (simp add: rebuild_step_def Let_def)
  next
    case False
    note nb = nonblank_rstrip_last[OF False]
    show ?thesis
    proof (cases "starts_new_record d ?line")
      case True
      with False have "settled d ?line" by (simp add: settled_def rstrip_rstrip)
      with Pair assms False True show ?thesis
        by (cases current) (auto simp: rebuild_step_def Let_def)
    next
      case F2: False
      show ?thesis
      proof (cases current)
        case None
        with Pair assms False F2 show ?thesis by (simp add: rebuild_step_def Let_def)
      next
        case (Some c)
        with Pair assms have c: "settled d c" by simp
        have "settled d (c @ [SPACE] @ ?line)"
        proof -
          from False have "\<not> is_blank (c @ [SPACE] @ ?line)" by (auto simp: is_blank_iff)
          moreover from c have "starts_new_record d (c @ [SPACE] @ ?line)"
            by (simp add: settled_def starts_new_record_append)
          moreover have "rstrip_chars [NEWLINE] (c @ [SPACE] @ ?line) = c @ [SPACE] @ ?line"
          proof -
            from nb(1) have "last (c @ [SPACE] @ ?line) = last ?line" by simp
            with nb(2) have "\<not> last (c @ [SPACE] @ ?line) \<in> set [NEWLINE]" by simp
            then have "c @ [SPACE] @ ?line = [] \<or> \<not> last (c @ [SPACE] @ ?line) \<in> set [NEWLINE]"
              by (rule disjI2)
            then show ?thesis
              unfolding rstrip_chars_def by (rule rstrip_by_fix)
          qed
          ultimately show ?thesis by (simp add: settled_def)
        qed
        with Pair assms False F2 Some show ?thesis by (simp add: rebuild_step_def Let_def)
      qed
    qed
  qed
qed

lemma settled_foldl:
  assumes "\<forall>r\<in>set (tl (fst st)). settled d r" "\<forall>c. snd st = Some c \<longrightarrow> settled d c" "fst st \<noteq> []"
  shows "(\<forall>r\<in>set (tl (fst (foldl (rebuild_step d) st ls))). settled d r)
     \<and> (\<forall>c. snd (foldl (rebuild_step d) st ls) = Some c \<longrightarrow> settled d c)
     \<and> fst (foldl (rebuild_step d) st ls) \<noteq> []"
  using assms
proof (induction ls arbitrary: st)
  case Nil
  then show ?case by simp
next
  case (Cons l ls)
  from settled_step[OF Cons.prems, of l] Cons.IH[of "rebuild_step d st l"] show ?case by simp
qed

lemma rebuild_output_settled:
  assumes "rebuild_records_by_id lines d = h # rs"
  shows "\<not> is_blank h \<and> rstrip_chars [NEWLINE] h = h \<and> (\<forall>r\<in>set rs. settled d r)"
proof -
  from assms obtain h0 rest where dw: "dropWhile is_blank lines = h0 # rest"
    by (auto simp: rebuild_records_by_id_def split: if_splits list.splits)
  then have nb: "\<not> is_blank h0" by (metis hd_dropWhile list.sel(1) list.distinct(1))
  define st where "st = foldl (rebuild_step d) ([rstrip_chars [NEWLINE] h0], None) rest"
  from dw assms have fl: "flush_current st = h # rs"
    by (auto simp: rebuild_records_by_id_def st_def split: if_splits)
  have inv: "(\<forall>r\<in>set (tl (fst st)). settled d r) \<and> (\<forall>c. snd st = Some c \<longrightarrow> settled d c) \<and> fst st \<noteq> []"
    unfolding st_def by (rule settled_foldl) simp_all
  have hd0: "hd (fst (foldl (rebuild_step d) s0 ls)) = hd (fst s0)" if "fst s0 \<noteq> []" for s0 ls
    using that
  proof (induction ls arbitrary: s0)
    case Nil
    then show ?case by simp
  next
    case (Cons l ls)
    have "fst (rebuild_step d s0 l) \<noteq> [] \<and> hd (fst (rebuild_step d s0 l)) = hd (fst s0)"
      using Cons.prems by (cases s0) (auto simp: rebuild_step_def Let_def split: option.splits)
    with Cons.IH[of "rebuild_step d s0 l"] show ?case by simp
  qed
  have "hd (fst st) = rstrip_chars [NEWLINE] h0" unfolding st_def by (simp add: hd0)
  with inv fl have "h = rstrip_chars [NEWLINE] h0" "\<forall>r\<in>set rs. settled d r"
    by (cases st; cases "fst st"; auto simp: flush_current_def split: option.splits)+
  with nb show ?thesis by (simp add: is_blank_rstrip_nl rstrip_rstrip)
qed

lemma rebuild_idempotent:
  "rebuild_records_by_id (rebuild_records_by_id lines d) d = rebuild_records_by_id lines d"
proof (cases "rebuild_records_by_id lines d")
  case Nil
  then show ?thesis by (simp add: rebuild_records_by_id_def)
next
  case (Cons h rs)
  from rebuild_output_settled[OF Cons]
  have h: "\<not> is_blank h" "rstrip_chars [NEWLINE] h = h" and rs: "\<forall>r\<in>set rs. settled d r" by auto
  from rs have body: "\<forall>l\<in>set rs. \<not> is_blank l \<and> starts_new_record d l"
    by (simp add: settled_def)
  from rs h have fx: "map (rstrip_chars [NEWLINE]) (h # rs) = h # rs"
    by (simp add: settled_def map_idI)
  have "rebuild_records_by_id ([] @ h # rs) d = map (rstrip_chars [NEWLINE]) (h # rs)"
    using h(1) body
    by (simp add: rebuild_records_by_id_def flush_foldl_open) (simp add: flush_current_def)
  with fx Cons show ?thesis by simp
qed

text \<open>
  Claim C6, as amended. On input that is already well formed (after leading blank lines,
  a header, then only non-blank lines whose first token, cleaned of the byte-order mark,
  surrounding whitespace and quotes, starts with the literal prefix BE-, which is the
  test of the reassembler) reassembly yields the header and exactly one record per line,
  in order, each the line itself without its trailing newline characters: nothing is
  merged, dropped or rewritten. On lines that carry no trailing newline the result is
  the input itself; and reassembling the output of a reassembly, of any input, gives
  that output back.
\<close>

theorem rebuild_wellformed:
  assumes "\<forall>b\<in>set bs. is_blank b"
    and "\<not> is_blank h"
    and "\<forall>l\<in>set ls. \<not> is_blank l \<and> starts_new_record d l"
  shows "rebuild_records_by_id (bs @ h # ls) d = map (rstrip_chars [NEWLINE]) (h # ls)
    \<and> ((\<forall>l\<in>set (h # ls). rstrip_chars [NEWLINE] l = l) \<longrightarrow>
          rebuild_records_by_id (bs @ h # ls) d = h # ls)
    \<and> rebuild_records_by_id (rebuild_records_by_id lines d) d = rebuild_records_by_id lines d"
proof -
  have eq: "rebuild_records_by_id (bs @ h # ls) d = map (rstrip_chars [NEWLINE]) (h # ls)"
    using assms
    by (simp add: rebuild_records_by_id_def dropWhile_blank_prefix flush_foldl_open)
      (simp add: flush_current_def)
  moreover have "map (rstrip_chars [NEWLINE]) (h # ls) = h # ls"
    if "\<forall>l\<in>set (h # ls). rstrip_chars [NEWLINE] l = l"
    using that by (simp add: map_idI)
  ultimately show ?thesis using rebuild_idempotent by simp
qed

theorem rebuild_wellformed_witness:
  "rebuild_records_by_id
     [[10], ascii ''ID;Description'' @ [10], ascii ''BE-1;a'' @ [10],
      [34] @ ascii ''BE-2'' @ [34] @ ascii '';b''] SEMICOLON
   = [ascii ''ID;Description'', ascii ''BE-1;a'', [34] @ ascii ''BE-2'' @ [34] @ ascii '';b'']"
proof -
  have blanks: "\<forall>b\<in>set [[10]]. is_blank b"
    by code_simp
  have header: "\<not> is_blank (ascii ''ID;Description'' @ [10])"
    by code_simp
  have body: "\<forall>l\<in>set [ascii ''BE-1;a'' @ [10], [34] @ ascii ''BE-2'' @ [34] @ ascii '';b''].
      \<not> is_blank l \<and> starts_new_record SEMICOLON l"
    by code_simp
  have stripped: "map (rstrip_chars [NEWLINE])
      [ascii ''ID;Description'' @ [10], ascii ''BE-1;a'' @ [10],
       [34] @ ascii ''BE-2'' @ [34] @ ascii '';b'']
    = [ascii ''ID;Description'', ascii ''BE-1;a'', [34] @ ascii ''BE-2'' @ [34] @ ascii '';b'']"
    by code_simp
  from rebuild_wellformed [OF blanks header body] stripped show ?thesis
    by simp
qed

text \<open>
  Claim C6 as stated fails. In \<open>ID;Description\<close>, \<open>be-123-;a\<close>, \<open>be-456-;b\<close> every line
  after the header is non-blank and starts with a record id as the pattern \<open>RE_BS_ID\<close>
  and \<open>looks_like_betterstreet_id\<close> accept it (in lower case), yet no line passes the
  case-sensitive prefix test, no record is opened and the output is the header alone.
  And a line that ends with a newline, as the lines that \<open>main\<close> reads do, is not
  returned unchanged: the newline is removed.
\<close>

theorem rebuild_wellformed_counterexample:
  "\<not> is_blank (ascii ''be-123-;a'') \<and> \<not> is_blank (ascii ''be-456-;b'')
   \<and> re_bs_id latin1_db (clean_first (first_field SEMICOLON (ascii ''be-123-;a'')))
   \<and> re_bs_id latin1_db (clean_first (first_field SEMICOLON (ascii ''be-456-;b'')))
   \<and> looks_like_betterstreet_id latin1_db (first_field SEMICOLON (ascii ''be-123-;a''))
   \<and> looks_like_betterstreet_id latin1_db (first_field SEMICOLON (ascii ''be-456-;b''))
   \<and> rebuild_records_by_id [ascii ''ID;Description'', ascii ''be-123-;a'', ascii ''be-456-;b'']
        SEMICOLON
       = [ascii ''ID;Description'']
   \<and> rebuild_records_by_id [ascii ''ID;Description'' @ [10], ascii ''BE-1;a'' @ [10]] SEMICOLON
       = [ascii ''ID;Description'', ascii ''BE-1;a'']"
  by code_simp


lemma opened_step:
  assumes "list_all2 opened_by xs (flush_current st)"
  shows "list_all2 opened_by (xs @ filter (opens d) [l]) (flush_current (rebuild_step d st l))"
proof (cases st)
  case (Pair rebuilt current)
  show ?thesis
  proof (cases "opens d l")
    case True
    then have "flush_current (rebuild_step d st l) = flush_current st @ [rstrip_chars [NEWLINE] l]"
      by (simp add: flush_step_cases opens_def)
    with True assms show ?thesis
      by (simp add: list_all2_appendI opened_by_def)
  next
    case False
    show ?thesis
    proof (cases "is_blank l \<or> current = None")
      case True
      with False Pair have "flush_current (rebuild_step d st l) = flush_current st"
        by (auto simp: flush_step_cases opens_def)
      with False assms show ?thesis by simp
    next
      case F2: False
      then obtain c where c: "current = Some c" by auto
      with Pair have fl: "flush_current st = rebuilt @ [c]" by (simp add: flush_current_def)
      with assms obtain xs' x where xs: "xs = xs' @ [x]" "list_all2 opened_by xs' rebuilt" "opened_by x c"
        by (auto simp: list_all2_append2 list_all2_Cons2)
      from F2 False Pair c have "flush_current (rebuild_step d st l) =
          butlast (flush_current st) @ [last (flush_current st) @ [SPACE] @ rstrip_chars [NEWLINE] l]"
        by (auto simp: flush_step_cases opens_def)
      then have "flush_current (rebuild_step d st l) =
          rebuilt @ [c @ [SPACE] @ rstrip_chars [NEWLINE] l]"
        by (simp add: fl)
      moreover from xs(3) have "opened_by x (c @ [SPACE] @ rstrip_chars [NEWLINE] l)"
        by (simp add: opened_by_def prefix_prefix)
      ultimately show ?thesis using xs False by (simp add: list_all2_appendI)
    qed
  qed
qed

lemma opened_foldl:
  assumes "list_all2 opened_by xs (flush_current st)"
  shows "list_all2 opened_by (xs @ filter (opens d) ls) (flush_current (foldl (rebuild_step d) st ls))"
  using assms
proof (induction ls arbitrary: st xs)
  case Nil
  then show ?case by simp
next
  case (Cons l ls)
  from opened_step[OF Cons.prems, of d l]
  have "list_all2 opened_by ((xs @ filter (opens d) [l]) @ filter (opens d) ls)
          (flush_current (foldl (rebuild_step d) (rebuild_step d st l) ls))"
    by (rule Cons.IH)
  then show ?case by (cases "opens d l") simp_all
qed

text \<open>
  Claim C5, as amended. After the header, the records of the output correspond
  one to one, in order, to the non-blank lines whose first token, cleaned of the
  byte-order mark, surrounding whitespace and quotes, starts with the literal prefix
  BE- (case-sensitive, nothing required after it); each record begins with the text of
  the line that opened it.
\<close>

theorem rebuild_opens:
  assumes "\<forall>b\<in>set bs. is_blank b" and "\<not> is_blank h"
  shows "list_all2 opened_by (h # filter (opens d) ls) (rebuild_records_by_id (bs @ h # ls) d)"
proof -
  have "list_all2 opened_by [h] (flush_current ([rstrip_chars [NEWLINE] h], None))"
    by (simp add: flush_current_def opened_by_def)
  from opened_foldl[OF this, of d ls] assms show ?thesis
    by (simp add: rebuild_records_by_id_def dropWhile_blank_prefix)
qed

theorem rebuild_opens_witness:
  "list_all2 opened_by
     [ascii ''ID;Description'', ascii ''BE-;a'', ascii ''BE-2;c'']
     (rebuild_records_by_id
        [[10], ascii ''ID;Description'', ascii ''BE-;a'', ascii ''be-123-;b'', ascii ''BE-2;c'']
        SEMICOLON)"
proof -
  have blanks: "\<forall>b\<in>set [[10]]. is_blank b"
    by code_simp
  have header: "\<not> is_blank (ascii ''ID;Description'')"
    by code_simp
  have sel: "filter (opens SEMICOLON) [ascii ''BE-;a'', ascii ''be-123-;b'', ascii ''BE-2;c'']
      = [ascii ''BE-;a'', ascii ''BE-2;c'']"
    by code_simp
  from rebuild_opens [OF blanks header, of SEMICOLON
      "[ascii ''BE-;a'', ascii ''be-123-;b'', ascii ''BE-2;c'']"]
  show ?thesis unfolding sel by simp
qed

text \<open>
  Claim C5 as stated fails. The line \<open>be-123-;b\<close> has a first token that the
  case-insensitive pattern \<open>RE_BS_ID\<close> (BE-, three to five digits, a hyphen) accepts, yet it
  opens no record and is glued to the record before it; the line \<open>BE-;c\<close> has no digit
  after the prefix, the pattern rejects its first token, yet it opens a record.
\<close>

theorem rebuild_pattern_counterexample:
  "re_bs_id latin1_db (clean_first (first_field SEMICOLON (ascii ''be-123-;b'')))
   \<and> rebuild_records_by_id [ascii ''ID;Description'', ascii ''BE-1;a'', ascii ''be-123-;b''] SEMICOLON
       = [ascii ''ID;Description'', ascii ''BE-1;a be-123-;b'']
   \<and> \<not> re_bs_id latin1_db (clean_first (first_field SEMICOLON (ascii ''BE-;c'')))
   \<and> rebuild_records_by_id [ascii ''ID;Description'', ascii ''BE-1;a'', ascii ''BE-;c''] SEMICOLON
       = [ascii ''ID;Description'', ascii ''BE-1;a'', ascii ''BE-;c'']"
  by code_simp

lemma rebuild_all_blank:
  assumes "\<forall>l\<in>set lines. is_blank l"
  shows "rebuild_records_by_id lines d = []"
proof -
  from assms have dw: "dropWhile is_blank lines = []" by simp
  show ?thesis unfolding rebuild_records_by_id_def dw by simp
qed

lemma foldl_rebuilt_nonempty:
  "fst st \<noteq> [] \<Longrightarrow> fst (foldl (rebuild_step d) st ls) \<noteq> []"
proof (induction ls arbitrary: st)
  case Nil
  then show ?case by simp
next
  case (Cons l ls)
  have "fst (rebuild_step d st l) \<noteq> []"
    using Cons.prems
    by (cases st) (auto simp: rebuild_step_def Let_def split: option.splits)
  then show ?case using Cons.IH by simp
qed

lemma rebuild_empty_only_blank:
  assumes "rebuild_records_by_id lines d = []"
  shows "\<forall>l\<in>set lines. is_blank l"
proof (rule ccontr)
  assume "\<not> (\<forall>l\<in>set lines. is_blank l)"
  then obtain h rest where dw: "dropWhile is_blank lines = h # rest"
    by (metis dropWhile_eq_Nil_conv list.exhaust)
  then have ne: "lines \<noteq> []" by auto
  have "fst (foldl (rebuild_step d) ([rstrip_chars [NEWLINE] h], None) rest) \<noteq> []"
    by (rule foldl_rebuilt_nonempty) simp
  then have "flush_current (foldl (rebuild_step d) ([rstrip_chars [NEWLINE] h], None) rest) \<noteq> []"
    by (cases "foldl (rebuild_step d) ([rstrip_chars [NEWLINE] h], None) rest")
      (auto simp: flush_current_def split: option.splits)
  with dw ne assms show False by (simp add: rebuild_records_by_id_def)
qed

lemma loop_body_error:
  assumes "loop_body U year hc st line = Inl err"
  shows "err = OverflowError (ascii ''date value out of range'')"
proof -
  from assms obtain ex :: ExtractResult
    where "correct_end (parse_record U (ex_fields ex)) = Inl err"
    by (auto simp: loop_body_def Let_def split: option.splits if_splits sum.splits)
  then obtain e where "dt_add e (hours 12) = Inl err"
    by (auto simp: correct_end_def split: option.splits if_splits sum.splits)
  then show ?thesis
    by (auto simp: dt_add_def Let_def split: if_splits prod.splits)
qed

lemma main_loop_error:
  assumes "main_loop U year hc st lines = Inl err"
  shows "err = OverflowError (ascii ''date value out of range'')"
  using assms
proof (induction lines arbitrary: st)
  case Nil
  then show ?case by simp
next
  case (Cons line lines)
  show ?case
  proof (cases "loop_body U year hc st line")
    case (Inl e)
    with Cons.prems have "e = err" by simp
    with Inl show ?thesis by (simp add: loop_body_error)
  next
    case (Inr st1)
    with Cons.prems have "main_loop U year hc st1 lines = Inl err" by simp
    then show ?thesis by (rule Cons.IH)
  qed
qed

text \<open>
  Claim C9. The reassembler returns the empty list on empty input, and in general
  exactly when every line is blank; \<open>main\<close> raises the ValueError "Aucune ligne
  reconstruite (CSV vide ?)." to its caller when the rebuilt list is empty, and only
  then (a header alone is a non-empty list).
\<close>

theorem empty_input_fatal:
  "rebuild_records_by_id [] d = []
   \<and> ((\<forall>l\<in>set lines. is_blank l) \<longleftrightarrow> rebuild_records_by_id lines d = [])
   \<and> (rebuild_records_by_id lines SEMICOLON = [] \<longleftrightarrow>
        main_core U year lines = Inl (ValueError EMPTY_MESSAGE))"
proof (intro conjI)
  show "rebuild_records_by_id [] d = []" by (simp add: rebuild_records_by_id_def)
  show "(\<forall>l\<in>set lines. is_blank l) \<longleftrightarrow> rebuild_records_by_id lines d = []"
    using rebuild_all_blank rebuild_empty_only_blank by blast
  show "rebuild_records_by_id lines SEMICOLON = [] \<longleftrightarrow>
        main_core U year lines = Inl (ValueError EMPTY_MESSAGE)"
  proof
    assume "rebuild_records_by_id lines SEMICOLON = []"
    then show "main_core U year lines = Inl (ValueError EMPTY_MESSAGE)"
      by (simp add: main_core_def)
  next
    assume a: "main_core U year lines = Inl (ValueError EMPTY_MESSAGE)"
    show "rebuild_records_by_id lines SEMICOLON = []"
    proof (rule ccontr)
      assume "rebuild_records_by_id lines SEMICOLON \<noteq> []"
      with a obtain hc ls where "main_loop U year hc init_state ls = Inl (ValueError EMPTY_MESSAGE)"
        by (auto simp: main_core_def Let_def)
      from main_loop_error[OF this] show False by simp
    qed
  qed
qed

theorem empty_input_fatal_witness:
  "rebuild_records_by_id [[10], ascii ''   '', [9, 13, 10]] SEMICOLON = []
   \<and> main_core latin1_db 2025 [[10], ascii ''   '', [9, 13, 10]] = Inl (ValueError EMPTY_MESSAGE)"
proof -
  have blank: "\<forall>l\<in>set [[10], ascii ''   '', [9, 13, 10]]. is_blank l"
    by code_simp
  from empty_input_fatal [of SEMICOLON "[[10], ascii ''   '', [9, 13, 10]]" latin1_db 2025] blank
  show ?thesis by blast
qed

section \<open>Field extraction: properties\<close>

lemma py_split_nonempty: "py_split d s \<noteq> []"
  by (induction s) (auto split: list.splits)

lemma tokenize_nonempty: "tokenize d s \<noteq> []"
  by (simp add: tokenize_def py_split_nonempty)

lemma foldl_upd_other:
  "k \<notin> set ks \<Longrightarrow> foldl dict_store m (zip ks vs) k = m k"
proof (induction ks arbitrary: vs m)
  case Nil
  then show ?case by simp
next
  case (Cons a ks)
  then show ?case by (cases vs) (auto simp: dict_store_def)
qed

lemma foldl_upd_last:
  assumes "length ks = length vs" "i < length ks" "ks ! i \<notin> set (drop (Suc i) ks)"
  shows "foldl dict_store m (zip ks vs) (ks ! i) = Some (vs ! i)"
  using assms
proof (induction ks arbitrary: vs m i)
  case Nil
  then show ?case by simp
next
  case (Cons a ks)
  then obtain v vs' where vs: "vs = v # vs'" by (cases vs) auto
  show ?case
  proof (cases i)
    case 0
    with Cons.prems have "a \<notin> set ks" by simp
    then have "foldl dict_store (dict_store m (a, v)) (zip ks vs') a = dict_store m (a, v) a"
      by (rule foldl_upd_other)
    moreover have "dict_store m (a, v) a = Some v"
      by (simp add: dict_store_def)
    ultimately show ?thesis using 0 vs by simp
  next
    case (Suc j)
    with Cons.prems vs have "length ks = length vs'" "j < length ks" "ks ! j \<notin> set (drop (Suc j) ks)"
      by auto
    from Cons.IH[OF this] Suc vs show ?thesis by simp
  qed
qed

lemma dict_zip_last:
  "length ks = length vs \<Longrightarrow> i < length ks \<Longrightarrow> ks ! i \<notin> set (drop (Suc i) ks)
   \<Longrightarrow> dict_zip ks vs (ks ! i) = Some (vs ! i)"
  unfolding dict_zip_def by (rule foldl_upd_last)

lemma dict_zip_other: "k \<notin> set ks \<Longrightarrow> dict_zip ks vs k = None"
  unfolding dict_zip_def by (simp add: foldl_upd_other)

lemma extract_fields_aligned:
  assumes "startswith (clean_first (hd (tokenize d line))) BE_PREFIX"
    and "length (tokenize d line) = length header_cols"
  shows "extract_fields U line header_cols d =
     Some \<lparr>ex_fields = aligned_fields header_cols (tokenize d line), ex_aligned = True\<rparr>"
  using assms by (simp add: extract_fields_def Let_def tokenize_nonempty)

text \<open>
  Claim C1. When the cleaned first token starts with BE- and there are as many tokens as
  header columns, \<open>extract_fields\<close> returns the aligned result: the dictionary holds,
  under each header name, the token at the same position (None for an empty token; a
  header name that occurs again further right is taken by that later column, as
  \<open>dict(zip(...))\<close> does), it holds no other key, and no token is changed.
\<close>

theorem aligned_extraction:
  assumes "startswith (clean_first (hd (tokenize d line))) BE_PREFIX"
    and "length (tokenize d line) = length header_cols"
  shows "\<exists>F. extract_fields U line header_cols d = Some \<lparr>ex_fields = F, ex_aligned = True\<rparr>
    \<and> (\<forall>i<length header_cols. header_cols ! i \<notin> set (drop (Suc i) header_cols) \<longrightarrow>
          F (header_cols ! i) = Some (or_none (tokenize d line ! i)))
    \<and> (\<forall>k. k \<notin> set header_cols \<longrightarrow> F k = None)"
proof -
  let ?F = "aligned_fields header_cols (tokenize d line)"
  have "?F (header_cols ! i) = Some (or_none (tokenize d line ! i))"
    if "i < length header_cols" "header_cols ! i \<notin> set (drop (Suc i) header_cols)" for i
    using that assms(2) by (simp add: aligned_fields_def Let_def dict_zip_last)
  moreover have "?F k = None" if "k \<notin> set header_cols" for k
    using that by (simp add: aligned_fields_def Let_def dict_zip_other)
  ultimately show ?thesis
    using extract_fields_aligned[OF assms, of U] by blast
qed

theorem aligned_extraction_witness:
  "\<exists>F. extract_fields latin1_db W1_LINE W1_HEADER SEMICOLON = Some \<lparr>ex_fields = F, ex_aligned = True\<rparr>
     \<and> F KEY_ID = Some (Some ([34] @ ascii ''BE-1001-'' @ [34]))
     \<and> F KEY_DESCRIPTION = Some (Some (ascii ''Fuite toiture''))
     \<and> F KEY_CATEGORIE = Some None"
proof -
  have toks: "tokenize SEMICOLON W1_LINE = [[34] @ ascii ''BE-1001-'' @ [34], ascii ''Fuite toiture'', []]"
    by code_simp
  have h1: "startswith (clean_first (hd (tokenize SEMICOLON W1_LINE))) BE_PREFIX"
    by code_simp
  have h2: "length (tokenize SEMICOLON W1_LINE) = length W1_HEADER"
    by code_simp
  from aligned_extraction [OF h1 h2, of latin1_db]
  obtain F where ex: "extract_fields latin1_db W1_LINE W1_HEADER SEMICOLON = Some \<lparr>ex_fields = F, ex_aligned = True\<rparr>"
    and pos: "\<forall>i<length W1_HEADER. W1_HEADER ! i \<notin> set (drop (Suc i) W1_HEADER) \<longrightarrow>
          F (W1_HEADER ! i) = Some (or_none (tokenize SEMICOLON W1_LINE ! i))"
    by blast
  have l: "length W1_HEADER = 3" by (simp add: W1_HEADER_def)
  have n0: "W1_HEADER ! 0 \<notin> set (drop (Suc 0) W1_HEADER)" by code_simp
  have n1: "W1_HEADER ! 1 \<notin> set (drop (Suc 1) W1_HEADER)" by code_simp
  have n2: "W1_HEADER ! 2 \<notin> set (drop (Suc 2) W1_HEADER)" by code_simp
  from pos n0 l have "F (W1_HEADER ! 0) = Some (or_none (tokenize SEMICOLON W1_LINE ! 0))" by simp
  then have f0: "F KEY_ID = Some (Some ([34] @ ascii ''BE-1001-'' @ [34]))"
    by (simp add: toks W1_HEADER_def or_none_def)
  from pos n1 l have "F (W1_HEADER ! 1) = Some (or_none (tokenize SEMICOLON W1_LINE ! 1))" by simp
  then have f1: "F KEY_DESCRIPTION = Some (Some (ascii ''Fuite toiture''))"
    by (simp add: toks W1_HEADER_def or_none_def ascii_def)
  from pos n2 l have "F (W1_HEADER ! 2) = Some (or_none (tokenize SEMICOLON W1_LINE ! 2))" by simp
  then have f2: "F KEY_CATEGORIE = Some None"
    by (simp add: toks W1_HEADER_def or_none_def)
  from ex f0 f1 f2 show ?thesis by blast
qed

lemma key_neq [simp]:
  "KEY_ID \<noteq> KEY_DESCRIPTION" "KEY_ID \<noteq> KEY_CATEGORIE"
  "KEY_ID \<noteq> KEY_BATIMENT" "KEY_ID \<noteq> KEY_ADRESSE" "KEY_ID \<noteq> KEY_CREE_LE"
  "KEY_ID \<noteq> KEY_ECHEANCE" "KEY_ID \<noteq> KEY_DEBUT" "KEY_ID \<noteq> KEY_FIN"
  "KEY_ID \<noteq> KEY_AGENTS" "KEY_ID \<noteq> KEY_CONSIGNE" "KEY_DESCRIPTION \<noteq> KEY_ID"
  "KEY_DESCRIPTION \<noteq> KEY_CATEGORIE" "KEY_DESCRIPTION \<noteq> KEY_BATIMENT"
  "KEY_DESCRIPTION \<noteq> KEY_ADRESSE" "KEY_DESCRIPTION \<noteq> KEY_CREE_LE"
  "KEY_DESCRIPTION \<noteq> KEY_ECHEANCE" "KEY_DESCRIPTION \<noteq> KEY_DEBUT"
  "KEY_DESCRIPTION \<noteq> KEY_FIN" "KEY_DESCRIPTION \<noteq> KEY_AGENTS"
  "KEY_DESCRIPTION \<noteq> KEY_CONSIGNE" "KEY_CATEGORIE \<noteq> KEY_ID"
  "KEY_CATEGORIE \<noteq> KEY_DESCRIPTION" "KEY_CATEGORIE \<noteq> KEY_BATIMENT"
  "KEY_CATEGORIE \<noteq> KEY_ADRESSE" "KEY_CATEGORIE \<noteq> KEY_CREE_LE"
  "KEY_CATEGORIE \<noteq> KEY_ECHEANCE" "KEY_CATEGORIE \<noteq> KEY_DEBUT"
  "KEY_CATEGORIE \<noteq> KEY_FIN" "KEY_CATEGORIE \<noteq> KEY_AGENTS"
  "KEY_CATEGORIE \<noteq> KEY_CONSIGNE" "KEY_BATIMENT \<noteq> KEY_ID"
  "KEY_BATIMENT \<noteq> KEY_DESCRIPTION" "KEY_BATIMENT \<noteq> KEY_CATEGORIE"
  "KEY_BATIMENT \<noteq> KEY_ADRESSE" "KEY_BATIMENT \<noteq> KEY_CREE_LE"
  "KEY_BATIMENT \<noteq> KEY_ECHEANCE" "KEY_BATIMENT \<noteq> KEY_DEBUT"
  "KEY_BATIMENT \<noteq> KEY_FIN" "KEY_BATIMENT \<noteq> KEY_AGENTS"
  "KEY_BATIMENT \<noteq> KEY_CONSIGNE" "KEY_ADRESSE \<noteq> KEY_ID"
  "KEY_ADRESSE \<noteq> KEY_DESCRIPTION" "KEY_ADRESSE \<noteq> KEY_CATEGORIE"
  "KEY_ADRESSE \<noteq> KEY_BATIMENT" "KEY_ADRESSE \<noteq> KEY_CREE_LE"
  "KEY_ADRESSE \<noteq> KEY_ECHEANCE" "KEY_ADRESSE \<noteq> KEY_DEBUT"
  "KEY_ADRESSE \<noteq> KEY_FIN" "KEY_ADRESSE \<noteq> KEY_AGENTS"
  "KEY_ADRESSE \<noteq> KEY_CONSIGNE" "KEY_CREE_LE \<noteq> KEY_ID"
  "KEY_CREE_LE \<noteq> KEY_DESCRIPTION" "KEY_CREE_LE \<noteq> KEY_CATEGORIE"
  "KEY_CREE_LE \<noteq> KEY_BATIMENT" "KEY_CREE_LE \<noteq> KEY_ADRESSE"
  "KEY_CREE_LE \<noteq> KEY_ECHEANCE" "KEY_CREE_LE \<noteq> KEY_DEBUT"
  "KEY_CREE_LE \<noteq> KEY_FIN" "KEY_CREE_LE \<noteq> KEY_AGENTS"
  "KEY_CREE_LE \<noteq> KEY_CONSIGNE" "KEY_ECHEANCE \<noteq> KEY_ID"
  "KEY_ECHEANCE \<noteq> KEY_DESCRIPTION" "KEY_ECHEANCE \<noteq> KEY_CATEGORIE"
  "KEY_ECHEANCE \<noteq> KEY_BATIMENT" "KEY_ECHEANCE \<noteq> KEY_ADRESSE"
  "KEY_ECHEANCE \<noteq> KEY_CREE_LE" "KEY_ECHEANCE \<noteq> KEY_DEBUT"
  "KEY_ECHEANCE \<noteq> KEY_FIN" "KEY_ECHEANCE \<noteq> KEY_AGENTS"
  "KEY_ECHEANCE \<noteq> KEY_CONSIGNE" "KEY_DEBUT \<noteq> KEY_ID"
  "KEY_DEBUT \<noteq> KEY_DESCRIPTION" "KEY_DEBUT \<noteq> KEY_CATEGORIE"
  "KEY_DEBUT \<noteq> KEY_BATIMENT" "KEY_DEBUT \<noteq> KEY_ADRESSE"
  "KEY_DEBUT \<noteq> KEY_CREE_LE" "KEY_DEBUT \<noteq> KEY_ECHEANCE" "KEY_DEBUT \<noteq> KEY_FIN"
  "KEY_DEBUT \<noteq> KEY_AGENTS" "KEY_DEBUT \<noteq> KEY_CONSIGNE" "KEY_FIN \<noteq> KEY_ID"
  "KEY_FIN \<noteq> KEY_DESCRIPTION" "KEY_FIN \<noteq> KEY_CATEGORIE"
  "KEY_FIN \<noteq> KEY_BATIMENT" "KEY_FIN \<noteq> KEY_ADRESSE" "KEY_FIN \<noteq> KEY_CREE_LE"
  "KEY_FIN \<noteq> KEY_ECHEANCE" "KEY_FIN \<noteq> KEY_DEBUT" "KEY_FIN \<noteq> KEY_AGENTS"
  "KEY_FIN \<noteq> KEY_CONSIGNE" "KEY_AGENTS \<noteq> KEY_ID"
  "KEY_AGENTS \<noteq> KEY_DESCRIPTION" "KEY_AGENTS \<noteq> KEY_CATEGORIE"
  "KEY_AGENTS \<noteq> KEY_BATIMENT" "KEY_AGENTS \<noteq> KEY_ADRESSE"
  "KEY_AGENTS \<noteq> KEY_CREE_LE" "KEY_AGENTS \<noteq> KEY_ECHEANCE"
  "KEY_AGENTS \<noteq> KEY_DEBUT" "KEY_AGENTS \<noteq> KEY_FIN"
  "KEY_AGENTS \<noteq> KEY_CONSIGNE" "KEY_CONSIGNE \<noteq> KEY_ID"
  "KEY_CONSIGNE \<noteq> KEY_DESCRIPTION" "KEY_CONSIGNE \<noteq> KEY_CATEGORIE"
  "KEY_CONSIGNE \<noteq> KEY_BATIMENT" "KEY_CONSIGNE \<noteq> KEY_ADRESSE"
  "KEY_CONSIGNE \<noteq> KEY_CREE_LE" "KEY_CONSIGNE \<noteq> KEY_ECHEANCE"
  "KEY_CONSIGNE \<noteq> KEY_DEBUT" "KEY_CONSIGNE \<noteq> KEY_FIN"
  "KEY_CONSIGNE \<noteq> KEY_AGENTS"
  by (simp_all add: KEY_ID_def KEY_DESCRIPTION_def KEY_CATEGORIE_def KEY_BATIMENT_def KEY_ADRESSE_def
      KEY_CREE_LE_def KEY_ECHEANCE_def KEY_DEBUT_def KEY_FIN_def KEY_AGENTS_def KEY_CONSIGNE_def
      ascii_def)

lemma dict_get_set [simp]: "dict_get (dict_set f k v) k' = (if k' = k then v else dict_get f k')"
  by (simp add: dict_get_def dict_set_def)

lemma stage_created_frame:
  "k \<noteq> KEY_CREE_LE \<Longrightarrow> k \<noteq> KEY_CATEGORIE \<Longrightarrow> k \<noteq> KEY_DESCRIPTION
   \<Longrightarrow> dict_get (stage_created U toks c f) k = dict_get f k"
  by (simp add: stage_created_def Let_def split: option.splits)

lemma stage_planning_frame:
  "k \<noteq> KEY_ECHEANCE \<Longrightarrow> k \<noteq> KEY_DEBUT \<Longrightarrow> k \<noteq> KEY_FIN
   \<Longrightarrow> dict_get (stage_planning toks a f) k = dict_get f k"
  by (simp add: stage_planning_def Let_def split: option.splits)

lemma stage_agents_frame:
  "k \<noteq> KEY_AGENTS \<Longrightarrow> dict_get (stage_agents toks ai f) k = dict_get f k"
  by (simp add: stage_agents_def split: option.splits)

lemma stage_echeance_neighbours_frame:
  "k \<noteq> KEY_ADRESSE \<Longrightarrow> k \<noteq> KEY_BATIMENT
   \<Longrightarrow> dict_get (stage_echeance_neighbours U toks e f) k = dict_get f k"
  by (simp add: stage_echeance_neighbours_def neighbour_address_def neighbour_batiment_def Let_def
      split: option.splits)

lemma stage_address_scan_frame:
  "k \<noteq> KEY_ADRESSE \<Longrightarrow> dict_get (stage_address_scan U toks f) k = dict_get f k"
  by (simp add: stage_address_scan_def split: option.splits)

lemma stage_batiment_fallback_frame:
  "k \<noteq> KEY_BATIMENT \<Longrightarrow> dict_get (stage_batiment_fallback U toks f) k = dict_get f k"
  by (simp add: stage_batiment_fallback_def split: option.splits)

lemma stage_consigne_frame:
  "k \<noteq> KEY_CONSIGNE \<Longrightarrow> dict_get (stage_consigne U toks ai f) k = dict_get f k"
  by (simp add: stage_consigne_def split: option.splits)

lemmas stage_frames = stage_created_frame stage_planning_frame stage_agents_frame
  stage_echeance_neighbours_frame stage_address_scan_frame stage_batiment_fallback_frame
  stage_consigne_frame

lemma heuristic_id: "dict_get (heuristic_fields U rid toks header_cols) KEY_ID = Some rid"
  by (simp add: heuristic_fields_def Let_def stage_frames)

lemma strip_by_idem: "strip_by p (strip_by p s) = strip_by p s"
proof -
  define q where "q = dropWhile p (rev s)"
  define l where "l = dropWhile p (rev q)"
  have "dropWhile p (rev l) = rev l"
  proof (cases l)
    case Nil
    then show ?thesis by simp
  next
    case (Cons a as)
    then have lne: "l \<noteq> []" by simp
    have "rev q = takeWhile p (rev q) @ l"
      unfolding l_def by simp
    with lne have "last (rev q) = last l"
      by (metis last_appendR)
    moreover from lne have qne: "q \<noteq> []"
      unfolding l_def by auto
    ultimately have "hd q = last l"
      by (simp add: last_rev)
    moreover have "\<not> p (hd q)"
      using qne unfolding q_def by (rule hd_dropWhile)
    ultimately have "\<not> p (hd (rev l))"
      using lne by (simp add: hd_rev)
    then show ?thesis
      by (simp add: dropWhile_eq_self_iff)
  qed
  then have "dropWhile p (dropWhile p (rev l)) = dropWhile p (rev l)"
    by (simp only: dropWhile_idem)
  moreover have "dropWhile p (rev (dropWhile p (rev l))) = dropWhile p l"
    using \<open>dropWhile p (rev l) = rev l\<close> by simp
  moreover have "dropWhile p l = l"
    unfolding l_def by (simp only: dropWhile_idem)
  ultimately show ?thesis
    unfolding strip_by_def lstrip_by_def rstrip_by_def l_def q_def by simp
qed

lemma strip_idem [simp]: "strip (strip s) = strip s"
  by (simp add: strip_def strip_by_idem)

lemma looks_like_address_strip [simp]: "looks_like_address U (strip t) = looks_like_address U t"
  by (simp add: looks_like_address_def)

lemma neighbour_address_none:
  assumes "\<forall>t\<in>set toks. \<not> looks_like_address U t"
  shows "neighbour_address U toks ei f = f"
proof (cases "0 \<le> int ei - 1 \<and> int ei - 1 < int (length toks)")
  case True
  then have "nat (int ei - 1) < length toks" by linarith
  then have "toks ! nat (int ei - 1) \<in> set toks" by (rule nth_mem)
  with assms have "\<not> looks_like_address U (toks ! nat (int ei - 1))" by blast
  then have "\<not> looks_like_address U (strip (toks ! nat (int ei - 1)))" by simp
  then show ?thesis
    unfolding neighbour_address_def Let_def by (simp only: simp_thms if_False if_cancel)
next
  case False
  show ?thesis
    unfolding neighbour_address_def Let_def by (simp only: False if_False)
qed

lemma neighbour_batiment_frame:
  "k \<noteq> KEY_BATIMENT \<Longrightarrow> dict_get (neighbour_batiment U toks ei f) k = dict_get f k"
  by (simp add: neighbour_batiment_def Let_def)

lemma neighbour_address_frame:
  "k \<noteq> KEY_ADRESSE \<Longrightarrow> dict_get (neighbour_address U toks ei f) k = dict_get f k"
  by (simp add: neighbour_address_def Let_def)

lemma no_address_neighbours:
  assumes "\<forall>t\<in>set toks. \<not> looks_like_address U t"
  shows "dict_get (stage_echeance_neighbours U toks e f) KEY_ADRESSE = dict_get f KEY_ADRESSE"
  by (cases e)
    (simp_all add: stage_echeance_neighbours_def neighbour_batiment_frame
      neighbour_address_none[OF assms])

lemma no_address_scan:
  assumes "\<forall>t\<in>set toks. \<not> looks_like_address U t"
  shows "stage_address_scan U toks f = f"
proof -
  from assms have "find (looks_like_address U) toks = None"
    by (simp add: find_None_iff)
  then show ?thesis by (simp add: stage_address_scan_def)
qed

lemma neighbour_batiment_value:
  assumes "dict_get f KEY_BATIMENT = None"
  shows "dict_get (neighbour_batiment U toks ei f) KEY_BATIMENT = batiment_candidate U toks ei"
proof (cases "2 \<le> ei \<and> ei - 2 < length toks")
  case True
  then have c: "0 \<le> int ei - 2 \<and> int ei - 2 < int (length toks)" by linarith
  from True have n: "nat (int ei - 2) = ei - 2" by linarith
  show ?thesis
    using True assms unfolding neighbour_batiment_def batiment_candidate_def Let_def n
    by (simp only: c if_True) simp
next
  case False
  then have c: "\<not> (0 \<le> int ei - 2 \<and> int ei - 2 < int (length toks))" by linarith
  show ?thesis
    using False assms unfolding neighbour_batiment_def batiment_candidate_def Let_def
    by (simp only: c if_False)
qed

lemma neighbours_batiment:
  assumes "dict_get f KEY_BATIMENT = None"
  shows "dict_get (stage_echeance_neighbours U toks e f) KEY_BATIMENT =
     (case e of None \<Rightarrow> None | Some ei \<Rightarrow> batiment_candidate U toks ei)"
proof (cases e)
  case None
  then show ?thesis using assms by (simp add: stage_echeance_neighbours_def)
next
  case (Some ei)
  from assms have "dict_get (neighbour_address U toks ei f) KEY_BATIMENT = None"
    by (simp add: neighbour_address_frame)
  from neighbour_batiment_value[OF this] Some show ?thesis
    by (simp add: stage_echeance_neighbours_def)
qed

text \<open>
  Claim C10, as amended. On the broken path, when there is no agents anchor and no token
  looks like an address, the instruction (Consigne) and the address stay absent, and
  the building is absent too unless a due date was found and the token two places
  before it qualifies (non-empty, not a record id, not address-like, not a date), in
  which case the building is that token.
\<close>

theorem no_anchor_fields:
  assumes "startswith (clean_first (hd (tokenize d line))) BE_PREFIX"
    and "length (tokenize d line) \<noteq> length header_cols"
    and "agents_index (tokenize d line) (find_anchors U (tokenize d line)) = None"
    and "\<forall>t\<in>set (tokenize d line). \<not> looks_like_address U t"
  shows "\<exists>F. extract_fields U line header_cols d = Some \<lparr>ex_fields = F, ex_aligned = False\<rparr>
    \<and> dict_get F KEY_CONSIGNE = None
    \<and> dict_get F KEY_ADRESSE = None
    \<and> dict_get F KEY_BATIMENT =
        (case echeance_idx (find_anchors U (tokenize d line)) of
           None \<Rightarrow> None
         | Some ei \<Rightarrow> batiment_candidate U (tokenize d line) ei)"
proof -
  let ?toks = "tokenize d line"
  let ?rid = "clean_first (hd ?toks)"
  let ?a = "find_anchors U ?toks"
  let ?f0 = "dict_set (\<lambda>k. if k \<in> set header_cols then Some None else None) KEY_ID (Some ?rid)"
  let ?f1 = "stage_agents ?toks None (stage_planning ?toks ?a (stage_created U ?toks (created_idx ?a) ?f0))"
  let ?f2 = "stage_echeance_neighbours U ?toks (echeance_idx ?a) ?f1"
  let ?F = "heuristic_fields U ?rid ?toks header_cols"
  have base: "dict_get (\<lambda>k. if k \<in> set header_cols then Some None else None) k = None" for k
    by (simp add: dict_get_def)
  have f1: "dict_get ?f1 KEY_BATIMENT = None" "dict_get ?f1 KEY_ADRESSE = None"
    "dict_get ?f1 KEY_CONSIGNE = None"
    by (simp_all add: stage_frames base)
  have adr: "dict_get ?f2 KEY_ADRESSE = None"
    using no_address_neighbours[OF assms(4)] f1 by simp
  have F: "?F = stage_batiment_fallback U ?toks ?f2"
    using assms(3,4) by (simp add: heuristic_fields_def Let_def no_address_scan stage_consigne_def)
  have fb: "stage_batiment_fallback U ?toks ?f2 = ?f2"
    using adr by (simp add: stage_batiment_fallback_def truthy_def)
  have "dict_get ?F KEY_CONSIGNE = None"
    by (simp add: F fb stage_frames f1)
  moreover have "dict_get ?F KEY_ADRESSE = None"
    by (simp add: F fb adr)
  moreover have "dict_get ?F KEY_BATIMENT =
      (case echeance_idx ?a of None \<Rightarrow> None | Some ei \<Rightarrow> batiment_candidate U ?toks ei)"
    unfolding F fb by (rule neighbours_batiment) (rule f1)
  moreover have "extract_fields U line header_cols d = Some \<lparr>ex_fields = ?F, ex_aligned = False\<rparr>"
    using assms(1,2) by (simp add: extract_fields_def Let_def tokenize_nonempty)
  ultimately show ?thesis by blast
qed


theorem no_anchor_fields_witness:
  "field_of (extract_fields latin1_db W10_LINE W1_HEADER SEMICOLON) KEY_CONSIGNE = None
   \<and> field_of (extract_fields latin1_db W10_LINE W1_HEADER SEMICOLON) KEY_BATIMENT = Some (ascii ''foo'')
   \<and> field_of (extract_fields latin1_db W10_LINE_NO_DATE W1_HEADER SEMICOLON) KEY_CONSIGNE = None
   \<and> field_of (extract_fields latin1_db W10_LINE_NO_DATE W1_HEADER SEMICOLON) KEY_BATIMENT = None"
proof -
  have a1: "startswith (clean_first (hd (tokenize SEMICOLON W10_LINE))) BE_PREFIX"
    by code_simp
  have a2: "length (tokenize SEMICOLON W10_LINE) \<noteq> length W1_HEADER"
    by code_simp
  have a3: "agents_index (tokenize SEMICOLON W10_LINE)
      (find_anchors latin1_db (tokenize SEMICOLON W10_LINE)) = None"
    by code_simp
  have a4: "\<forall>t\<in>set (tokenize SEMICOLON W10_LINE). \<not> looks_like_address latin1_db t"
    by code_simp
  have a5: "(case echeance_idx (find_anchors latin1_db (tokenize SEMICOLON W10_LINE)) of
      None \<Rightarrow> None
    | Some ei \<Rightarrow> batiment_candidate latin1_db (tokenize SEMICOLON W10_LINE) ei) = Some (ascii ''foo'')"
    by code_simp
  have b1: "startswith (clean_first (hd (tokenize SEMICOLON W10_LINE_NO_DATE))) BE_PREFIX"
    by code_simp
  have b2: "length (tokenize SEMICOLON W10_LINE_NO_DATE) \<noteq> length W1_HEADER"
    by code_simp
  have b3: "agents_index (tokenize SEMICOLON W10_LINE_NO_DATE)
      (find_anchors latin1_db (tokenize SEMICOLON W10_LINE_NO_DATE)) = None"
    by code_simp
  have b4: "\<forall>t\<in>set (tokenize SEMICOLON W10_LINE_NO_DATE). \<not> looks_like_address latin1_db t"
    by code_simp
  have b5: "(case echeance_idx (find_anchors latin1_db (tokenize SEMICOLON W10_LINE_NO_DATE)) of
      None \<Rightarrow> None
    | Some ei \<Rightarrow> batiment_candidate latin1_db (tokenize SEMICOLON W10_LINE_NO_DATE) ei) = None"
    by code_simp
  from no_anchor_fields [OF a1 a2 a3 a4] a5
  have "field_of (extract_fields latin1_db W10_LINE W1_HEADER SEMICOLON) KEY_CONSIGNE = None
    \<and> field_of (extract_fields latin1_db W10_LINE W1_HEADER SEMICOLON) KEY_BATIMENT = Some (ascii ''foo'')"
    by (auto simp: field_of_def)
  moreover from no_anchor_fields [OF b1 b2 b3 b4] b5
  have "field_of (extract_fields latin1_db W10_LINE_NO_DATE W1_HEADER SEMICOLON) KEY_CONSIGNE = None
    \<and> field_of (extract_fields latin1_db W10_LINE_NO_DATE W1_HEADER SEMICOLON) KEY_BATIMENT = None"
    by (auto simp: field_of_def)
  ultimately show ?thesis by blast
qed

text \<open>
  Claim C10 as stated fails. The record \<open>BE-1;Building X;foo;01-01-25;02-01-25\<close> (five
  tokens against a header of three) has no date-time token, so no end of planning; its
  due date is the last token, so nothing stands three places after it; no token looks
  like an address. Yet the building is set, to the token two places before the due date.
\<close>

theorem no_anchor_batiment_counterexample:
  "length (tokenize SEMICOLON W10_LINE) \<noteq> length W1_HEADER
   \<and> end_idx (find_anchors latin1_db (tokenize SEMICOLON W10_LINE)) = None
   \<and> echeance_idx (find_anchors latin1_db (tokenize SEMICOLON W10_LINE)) = Some 4
   \<and> length (tokenize SEMICOLON W10_LINE) = 5
   \<and> agents_index (tokenize SEMICOLON W10_LINE)
        (find_anchors latin1_db (tokenize SEMICOLON W10_LINE)) = None
   \<and> filter (looks_like_address latin1_db) (tokenize SEMICOLON W10_LINE) = []
   \<and> field_of (extract_fields latin1_db W10_LINE W1_HEADER SEMICOLON) KEY_BATIMENT
        = Some (ascii ''foo'')"
  by code_simp

section \<open>The main loop: properties\<close>

lemma contains_join: "x \<in> set xs \<Longrightarrow> sublist x (py_join sep xs)"
proof (induction sep xs rule: py_join.induct)
  case (1 sep)
  then show ?case by simp
next
  case (2 sep y)
  then show ?case by simp
next
  case (3 sep y z zs)
  show ?case
  proof (cases "x = y")
    case True
    then show ?thesis by simp
  next
    case False
    with 3 have "sublist x (py_join sep (z # zs))" by simp
    moreover have "sublist (py_join sep (z # zs)) ((y @ sep) @ py_join sep (z # zs))"
      by (rule sublist_append_leftI)
    ultimately have "sublist x ((y @ sep) @ py_join sep (z # zs))"
      by (rule sublist_order.order.trans)
    then show ?thesis by simp
  qed
qed

lemma loop_body_none:
  "extract_fields U line hc SEMICOLON = None \<Longrightarrow> loop_body U year hc st line = Inr st"
  by (simp add: loop_body_def)

lemma loop_body_skipped:
  assumes "extract_fields U line hc SEMICOLON = Some ex"
    and "\<not> keep_rule year (parse_record U (ex_fields ex))"
  shows "\<exists>st'. loop_body U year hc st line = Inr st' \<and> records st' = records st
    \<and> anomalies st' = anomalies st \<and> kept st' = kept st
    \<and> skipped_other_year st' = skipped_other_year st + 1"
  using assms by (simp add: loop_body_def Let_def)

lemma loop_body_overflow:
  assumes "extract_fields U line hc SEMICOLON = Some ex"
    and "keep_rule year (parse_record U (ex_fields ex))"
    and "correct_end (parse_record U (ex_fields ex)) = Inl err"
  shows "loop_body U year hc st line = Inl err"
  using assms by (simp add: loop_body_def Let_def)

lemma loop_body_kept:
  assumes "extract_fields U line hc SEMICOLON = Some ex"
    and "keep_rule year (parse_record U (ex_fields ex))"
    and "correct_end (parse_record U (ex_fields ex)) = Inr (ec, notes)"
  shows "\<exists>st'. loop_body U year hc st line = Inr st'
    \<and> records st' = records st
        @ [planning_row (ex_fields ex) (parse_record U (ex_fields ex)) ec
             (fst (duration_of (p_start_dt (parse_record U (ex_fields ex))) ec notes))]
    \<and> anomalies st' = anomalies st
        @ (if is_anomaly (py_join NOTE_SEP
                (snd (duration_of (p_start_dt (parse_record U (ex_fields ex))) ec notes)))
           then [anomaly_row (ex_fields ex) (parse_record U (ex_fields ex)) ec
                   (fst (duration_of (p_start_dt (parse_record U (ex_fields ex))) ec notes))
                   (py_join NOTE_SEP
                      (snd (duration_of (p_start_dt (parse_record U (ex_fields ex))) ec notes)))]
           else [])
    \<and> kept st' = kept st + 1
    \<and> skipped_other_year st' = skipped_other_year st"
  using assms by (simp add: loop_body_def Let_def)

lemma correct_end_shift:
  assumes "p_start_dt p = Some s" "p_end_dt p = Some e" "dt_less e s"
  shows "correct_end p =
     (case dt_add e (hours 12) of
        Inl err \<Rightarrow> Inl err
      | Inr e' \<Rightarrow> Inr (Some e', p_notes p @ [NOTE_SHIFTED]))"
  using assms by (simp add: correct_end_def)

lemma correct_end_same:
  assumes "\<not> (\<exists>s e. p_start_dt p = Some s \<and> p_end_dt p = Some e \<and> dt_less e s)"
  shows "correct_end p = Inr (p_end_dt p, p_notes p)"
  using assms by (auto simp: correct_end_def split: option.splits)

lemma correct_end_Inl:
  assumes "correct_end p = Inl err"
  shows "\<exists>s e. p_start_dt p = Some s \<and> p_end_dt p = Some e \<and> dt_less e s
    \<and> dt_add e (hours 12) = Inl err"
  using assms by (auto simp: correct_end_def split: option.splits if_splits sum.splits)

lemma keep_rule_iff:
  "keep_rule year p \<longleftrightarrow>
     (if p_start_dt p \<noteq> None \<or> p_end_dt p \<noteq> None
      then (\<exists>x. p_start_dt p = Some x \<and> dt_year x = year) \<or> (\<exists>x. p_end_dt p = Some x \<and> dt_year x = year)
      else (\<exists>c. p_created_date p = Some c \<and> d_year c = year))"
  by (auto simp: keep_rule_def in_year_def Let_def split: option.splits)

text \<open>
  Claim C3, as amended. A record that was extracted is kept when the target year is the
  year of the parsed start or of the parsed end, the end as parsed, before any 12 hour
  correction, if at least one of the two parsed; when neither parsed, when the target
  year is the year of the parsed created date. Otherwise it is skipped and counted as
  such. A kept record is counted and emitted, unless the 12 hour correction overflows.
\<close>

theorem year_filter:
  fixes U :: pydb and year :: int and ex :: ExtractResult
  assumes "extract_fields U line hc SEMICOLON = Some ex"
  defines "start_dt \<equiv> p_start_dt (parse_record U (ex_fields ex))"
    and "end_dt \<equiv> p_end_dt (parse_record U (ex_fields ex))"
    and "created \<equiv> p_created_date (parse_record U (ex_fields ex))"
  defines "in_target_year \<equiv>
     (if start_dt \<noteq> None \<or> end_dt \<noteq> None
      then (\<exists>x. start_dt = Some x \<and> dt_year x = year) \<or> (\<exists>x. end_dt = Some x \<and> dt_year x = year)
      else (\<exists>c. created = Some c \<and> d_year c = year))"
  shows "(in_target_year \<longrightarrow>
            (case loop_body U year hc st line of
               Inr st' \<Rightarrow> kept st' = kept st + 1 \<and> skipped_other_year st' = skipped_other_year st
                  \<and> length (records st') = length (records st) + 1
             | Inl err \<Rightarrow> correct_end (parse_record U (ex_fields ex)) = Inl err))
       \<and> (\<not> in_target_year \<longrightarrow>
            (case loop_body U year hc st line of
               Inr st' \<Rightarrow> kept st' = kept st \<and> skipped_other_year st' = skipped_other_year st + 1
                  \<and> records st' = records st
             | Inl err \<Rightarrow> False))"
proof -
  let ?p = "parse_record U (ex_fields ex)"
  have k: "keep_rule year ?p \<longleftrightarrow> in_target_year"
    unfolding in_target_year_def start_dt_def end_dt_def created_def by (rule keep_rule_iff)
  show ?thesis
  proof (cases "keep_rule year ?p")
    case False
    from loop_body_skipped[OF assms(1) False, of st] False k show ?thesis by auto
  next
    case True
    show ?thesis
    proof (cases "correct_end ?p")
      case (Inl err)
      from loop_body_overflow[OF assms(1) True Inl, of st] True k Inl show ?thesis by simp
    next
      case (Inr r)
      then obtain ec ns where "correct_end ?p = Inr (ec, ns)" by (cases r) auto
      from loop_body_kept[OF assms(1) True this, of st] True k show ?thesis by auto
    qed
  qed
qed


lemma W3_extract:
  "extract_fields latin1_db W3_LINE W3_HEADER SEMICOLON =
     Some \<lparr>ex_fields = aligned_fields W3_HEADER (tokenize SEMICOLON W3_LINE), ex_aligned = True\<rparr>"
proof (rule extract_fields_aligned)
  show "startswith (clean_first (hd (tokenize SEMICOLON W3_LINE))) BE_PREFIX" by code_simp
  show "length (tokenize SEMICOLON W3_LINE) = length W3_HEADER" by code_simp
qed

lemma W3_parsed:
  "p_start_dt (parse_record latin1_db (aligned_fields W3_HEADER (tokenize SEMICOLON W3_LINE)))
     = Some \<lparr>dt_year = 2024, dt_month = 12, dt_day = 31, dt_hour = 14, dt_minute = 0, dt_second = 0\<rparr>"
  "p_end_dt (parse_record latin1_db (aligned_fields W3_HEADER (tokenize SEMICOLON W3_LINE)))
     = Some \<lparr>dt_year = 2024, dt_month = 12, dt_day = 31, dt_hour = 13, dt_minute = 0, dt_second = 0\<rparr>"
  by code_simp+

theorem year_filter_witness:
  "(case loop_body latin1_db 2024 W3_HEADER init_state W3_LINE of
      Inr st' \<Rightarrow> kept st' = 1 \<and> skipped_other_year st' = 0 \<and> length (records st') = 1
    | Inl err \<Rightarrow> False)
   \<and> (case loop_body latin1_db 2025 W3_HEADER init_state W3_LINE of
      Inr st' \<Rightarrow> kept st' = 0 \<and> skipped_other_year st' = 1 \<and> records st' = []
    | Inl err \<Rightarrow> False)"
proof -
  have ce: "\<not> isl (correct_end (parse_record latin1_db (aligned_fields W3_HEADER (tokenize SEMICOLON W3_LINE))))"
    by code_simp
  from year_filter [OF W3_extract, of 2024 init_state] W3_parsed
  have "case loop_body latin1_db 2024 W3_HEADER init_state W3_LINE of
      Inr st' \<Rightarrow> kept st' = kept init_state + 1 \<and> skipped_other_year st' = skipped_other_year init_state
        \<and> length (records st') = length (records init_state) + 1
    | Inl err \<Rightarrow> correct_end (parse_record latin1_db (aligned_fields W3_HEADER (tokenize SEMICOLON W3_LINE))) = Inl err"
    by (simp split: sum.splits)
  with ce have a: "case loop_body latin1_db 2024 W3_HEADER init_state W3_LINE of
      Inr st' \<Rightarrow> kept st' = 1 \<and> skipped_other_year st' = 0 \<and> length (records st') = 1
    | Inl err \<Rightarrow> False"
    by (auto simp: init_state_def split: sum.splits)
  from year_filter [OF W3_extract, of 2025 init_state] W3_parsed
  have "case loop_body latin1_db 2025 W3_HEADER init_state W3_LINE of
      Inr st' \<Rightarrow> kept st' = kept init_state \<and> skipped_other_year st' = skipped_other_year init_state + 1
        \<and> records st' = records init_state
    | Inl err \<Rightarrow> False"
    by (simp split: sum.splits)
  then have b: "case loop_body latin1_db 2025 W3_HEADER init_state W3_LINE of
      Inr st' \<Rightarrow> kept st' = 0 \<and> skipped_other_year st' = 1 \<and> records st' = []
    | Inl err \<Rightarrow> False"
    by (auto simp: init_state_def split: sum.splits)
  from a b show ?thesis by blast
qed

text \<open>
  Claim C3 as stated fails. Start 31-12-24 14:00 and end 31-12-24 13:00 both parse, the
  end precedes the start, and the corrected end is 01-01-2025 01:00, in the year 2025;
  filtering for 2025 nevertheless skips the record, because the filter looks at the end
  as parsed (2024).
\<close>

theorem year_filter_counterexample:
  "parse_dt latin1_db (ascii ''31-12-24 14:00'')
     = Inr \<lparr>dt_year = 2024, dt_month = 12, dt_day = 31, dt_hour = 14, dt_minute = 0, dt_second = 0\<rparr>
   \<and> parse_dt latin1_db (ascii ''31-12-24 13:00'')
     = Inr \<lparr>dt_year = 2024, dt_month = 12, dt_day = 31, dt_hour = 13, dt_minute = 0, dt_second = 0\<rparr>
   \<and> dt_add \<lparr>dt_year = 2024, dt_month = 12, dt_day = 31, dt_hour = 13, dt_minute = 0, dt_second = 0\<rparr> (hours 12)
     = Inr \<lparr>dt_year = 2025, dt_month = 1, dt_day = 1, dt_hour = 1, dt_minute = 0, dt_second = 0\<rparr>
   \<and> main_core latin1_db 2025 [W3_HEADER_LINE, W3_LINE]
     = Inr (init_state\<lparr>skipped_other_year := 1, aligned_count := 1\<rparr>)
   \<and> records (init_state\<lparr>skipped_other_year := 1, aligned_count := 1\<rparr>) = []"
  by code_simp

lemma try_parse_dt_Some:
  "fst (try_parse_dt U pre raw) = Some x \<Longrightarrow> snd (try_parse_dt U pre raw) = []"
  by (auto simp: try_parse_dt_def split: option.splits sum.splits if_splits)

lemma parse_record_notes_both:
  assumes "p_start_dt (parse_record U f) = Some s" "p_end_dt (parse_record U f) = Some e"
  shows "p_notes (parse_record U f) =
     (if is_empty (dict_get f KEY_AGENTS) then [NOTE_AGENTS_MISSING] else [])"
proof -
  from assms have "fst (try_parse_dt U (ascii ''Start parse error: '') (dict_get f KEY_DEBUT)) = Some s"
    "fst (try_parse_dt U (ascii ''End parse error: '') (dict_get f KEY_FIN)) = Some e"
    by (simp_all add: parse_record_def Let_def)
  then show ?thesis
    by (simp add: parse_record_def Let_def try_parse_dt_Some)
qed

lemma shifted_keyword: "sublist (ascii ''End time shifted +12h'') NOTE_SHIFTED"
  by code_simp

lemma negative_keyword: "sublist (ascii ''Duration still negative'') NOTE_NEGATIVE"
  by code_simp

lemma no_negative_note:
  "\<not> sublist NOTE_NEGATIVE (py_join NOTE_SEP [NOTE_SHIFTED])"
  "\<not> sublist NOTE_NEGATIVE (py_join NOTE_SEP [NOTE_AGENTS_MISSING, NOTE_SHIFTED])"
  by code_simp+

text \<open>
  Claim C4, as amended. For a record that is kept, whose start and end both parse, whose
  end precedes its start and whose end plus 12 hours is still a datetime (not past
  31-12-9999), the step returns and the corrected end is the parsed end plus 12 hours,
  added once: the emitted row carries its date and time, an anomaly row for the same ID
  is appended, its notes mention the shift, the duration is the corrected end minus the
  start, and the notes say that the duration is still negative exactly when it is, the
  negative duration being kept in both rows.
\<close>

theorem twelve_hour_correction:
  fixes U :: pydb and year :: int and ex :: ExtractResult
  assumes "extract_fields U line hc SEMICOLON = Some ex"
    and "p_start_dt (parse_record U (ex_fields ex)) = Some s"
    and "p_end_dt (parse_record U (ex_fields ex)) = Some e"
    and "dt_less e s"
    and "dt_year s = year \<or> dt_year e = year"
    and "dt_add e (hours 12) = Inr e'"
  shows "\<exists>st' r a. loop_body U year hc st line = Inr st'
           \<and> records st' = records st @ [r]
           \<and> anomalies st' = anomalies st @ [a]
           \<and> r_Date_Fin r = Some (dt_date e') \<and> r_Heure_Fin r = Some (dt_time e')
           \<and> a_Fin_corrigee a = Some e'
           \<and> a_ID a = r_ID r
           \<and> contains (a_Notes a) NOTE_SHIFTED
           \<and> r_Duree r = Some (dt_sub e' s) \<and> a_Duree_corrigee a = Some (dt_sub e' s)
           \<and> (contains (a_Notes a) NOTE_NEGATIVE \<longleftrightarrow> dt_sub e' s < 0)"
proof -
  let ?p = "parse_record U (ex_fields ex)"
  have keep: "keep_rule year ?p"
    using assms(2,3,5) by (auto simp: keep_rule_iff)
  have ce: "correct_end ?p =
     (case dt_add e (hours 12) of
        Inl err \<Rightarrow> Inl err
      | Inr e' \<Rightarrow> Inr (Some e', p_notes ?p @ [NOTE_SHIFTED]))"
    using assms(2,3,4) by (rule correct_end_shift)
  show ?thesis
  proof -
    note Inr = assms(6)
    define ns where "ns = p_notes ?p @ [NOTE_SHIFTED]"
    define ns' where "ns' = (if dt_sub e' s < 0 then ns @ [NOTE_NEGATIVE] else ns)"
    define nj where "nj = py_join NOTE_SEP ns'"
    from ce Inr have c: "correct_end ?p = Inr (Some e', ns)" by (simp add: ns_def)
    have dn: "duration_of (p_start_dt ?p) (Some e') ns = (Some (dt_sub e' s), ns')"
      using assms(2) by (simp add: duration_of_def Let_def ns'_def)
    have "NOTE_SHIFTED \<in> set ns'" by (simp add: ns'_def ns_def)
    then have sh: "sublist NOTE_SHIFTED nj" unfolding nj_def by (rule contains_join)
    with shifted_keyword have "sublist (ascii ''End time shifted +12h'') nj"
      by (rule sublist_order.order.trans)
    then have an: "is_anomaly nj" by (simp add: is_anomaly_def contains_def)
    have neg: "sublist NOTE_NEGATIVE nj \<longleftrightarrow> dt_sub e' s < 0"
    proof (cases "dt_sub e' s < 0")
      case True
      then have "NOTE_NEGATIVE \<in> set ns'" by (simp add: ns'_def)
      then have "sublist NOTE_NEGATIVE nj" unfolding nj_def by (rule contains_join)
      with True show ?thesis by simp
    next
      case False
      then have "ns' = p_notes ?p @ [NOTE_SHIFTED]" by (simp add: ns'_def ns_def)
      with parse_record_notes_both[OF assms(2,3)]
      have "nj = py_join NOTE_SEP [NOTE_SHIFTED] \<or> nj = py_join NOTE_SEP [NOTE_AGENTS_MISSING, NOTE_SHIFTED]"
        by (simp add: nj_def)
      with no_negative_note False show ?thesis by auto
    qed
    from loop_body_kept[OF assms(1) keep c, of st] obtain st' where
      st': "loop_body U year hc st line = Inr st'"
        "records st' = records st @ [planning_row (ex_fields ex) ?p (Some e') (Some (dt_sub e' s))]"
        "anomalies st' = anomalies st @ [anomaly_row (ex_fields ex) ?p (Some e') (Some (dt_sub e' s)) nj]"
      using an by (auto simp: dn nj_def)
    let ?r = "planning_row (ex_fields ex) ?p (Some e') (Some (dt_sub e' s))"
    let ?a = "anomaly_row (ex_fields ex) ?p (Some e') (Some (dt_sub e' s)) nj"
    have "r_Date_Fin ?r = Some (dt_date e')" "r_Heure_Fin ?r = Some (dt_time e')"
      "a_Fin_corrigee ?a = Some e'" "a_ID ?a = r_ID ?r" "a_Notes ?a = nj"
      "r_Duree ?r = Some (dt_sub e' s)" "a_Duree_corrigee ?a = Some (dt_sub e' s)"
      by (simp_all add: planning_row_def anomaly_row_def)
    with st' sh neg show ?thesis
      unfolding contains_def by (intro exI[of _ st'] exI[of _ ?r] exI[of _ ?a]) simp
  qed
qed


lemma W4_extract:
  "extract_fields latin1_db W4_LINE W3_HEADER SEMICOLON =
     Some \<lparr>ex_fields = aligned_fields W3_HEADER (tokenize SEMICOLON W4_LINE), ex_aligned = True\<rparr>"
proof (rule extract_fields_aligned)
  show "startswith (clean_first (hd (tokenize SEMICOLON W4_LINE))) BE_PREFIX" by code_simp
  show "length (tokenize SEMICOLON W4_LINE) = length W3_HEADER" by code_simp
qed

theorem twelve_hour_correction_witness:
  "\<exists>st' r a. loop_body latin1_db 2025 W3_HEADER init_state W4_LINE = Inr st'
     \<and> records st' = [r] \<and> anomalies st' = [a]
     \<and> r_Date_Fin r = Some \<lparr>d_year = 2025, d_month = 1, d_day = 1\<rparr>
     \<and> r_Heure_Fin r = Some \<lparr>t_hour = 22, t_minute = 0, t_second = 0\<rparr>
     \<and> a_Fin_corrigee a = Some \<lparr>dt_year = 2025, dt_month = 1, dt_day = 1, dt_hour = 22,
          dt_minute = 0, dt_second = 0\<rparr>
     \<and> contains (a_Notes a) NOTE_SHIFTED
     \<and> contains (a_Notes a) NOTE_NEGATIVE
     \<and> r_Duree r = Some (- 43200)"
proof -
  let ?s = "\<lparr>dt_year = 2025, dt_month = 1, dt_day = 2, dt_hour = 10, dt_minute = 0, dt_second = 0\<rparr>"
  let ?e = "\<lparr>dt_year = 2025, dt_month = 1, dt_day = 1, dt_hour = 10, dt_minute = 0, dt_second = 0\<rparr>"
  let ?e' = "\<lparr>dt_year = 2025, dt_month = 1, dt_day = 1, dt_hour = 22, dt_minute = 0, dt_second = 0\<rparr>"
  have ps: "p_start_dt (parse_record latin1_db (ex_fields \<lparr>ex_fields = aligned_fields W3_HEADER (tokenize SEMICOLON W4_LINE), ex_aligned = True\<rparr>)) = Some ?s"
    by code_simp
  have pe: "p_end_dt (parse_record latin1_db (ex_fields \<lparr>ex_fields = aligned_fields W3_HEADER (tokenize SEMICOLON W4_LINE), ex_aligned = True\<rparr>)) = Some ?e"
    by code_simp
  have less: "dt_less ?e ?s" by code_simp
  have yr: "dt_year ?s = 2025 \<or> dt_year ?e = 2025" by simp
  have add: "dt_add ?e (hours 12) = Inr ?e'" by code_simp
  have sub: "dt_sub ?e' ?s = - 43200" by code_simp
  have dt: "dt_date ?e' = \<lparr>d_year = 2025, d_month = 1, d_day = 1\<rparr>"
    "dt_time ?e' = \<lparr>t_hour = 22, t_minute = 0, t_second = 0\<rparr>"
    by (simp_all add: dt_date_def dt_time_def)
  from twelve_hour_correction [OF W4_extract ps pe less yr add, of init_state]
  show ?thesis
    by (simp add: sub dt init_state_def) blast
qed

lemma W4_OVERFLOW_extract:
  "extract_fields latin1_db W4_LINE_OVERFLOW W3_HEADER SEMICOLON =
     Some \<lparr>ex_fields = aligned_fields W3_HEADER (tokenize SEMICOLON W4_LINE_OVERFLOW),
           ex_aligned = True\<rparr>"
proof (rule extract_fields_aligned)
  show "startswith (clean_first (hd (tokenize SEMICOLON W4_LINE_OVERFLOW))) BE_PREFIX" by code_simp
  show "length (tokenize SEMICOLON W4_LINE_OVERFLOW) = length W3_HEADER" by code_simp
qed

text \<open>
  Claim C4 as stated fails. In the record \<open>BE-9;31/12/9999 14:00;31/12/9999 13:00\<close>,
  processed for the year 9999, start and end both parse, the end precedes the start and
  the record passes the year filter; the end plus 12 hours would be 01:00 on the first
  day of the year 10000, which is no datetime: the addition of line 407 raises
  OverflowError, outside any \<open>try\<close>, and the run stops with no row and no anomaly.
\<close>

theorem twelve_hour_overflow_counterexample:
  "extract_fields latin1_db W4_LINE_OVERFLOW W3_HEADER SEMICOLON =
     Some \<lparr>ex_fields = aligned_fields W3_HEADER (tokenize SEMICOLON W4_LINE_OVERFLOW),
           ex_aligned = True\<rparr>
   \<and> p_start_dt (parse_record latin1_db (aligned_fields W3_HEADER (tokenize SEMICOLON W4_LINE_OVERFLOW)))
     = Some \<lparr>dt_year = 9999, dt_month = 12, dt_day = 31, dt_hour = 14, dt_minute = 0, dt_second = 0\<rparr>
   \<and> p_end_dt (parse_record latin1_db (aligned_fields W3_HEADER (tokenize SEMICOLON W4_LINE_OVERFLOW)))
     = Some \<lparr>dt_year = 9999, dt_month = 12, dt_day = 31, dt_hour = 13, dt_minute = 0, dt_second = 0\<rparr>
   \<and> dt_less \<lparr>dt_year = 9999, dt_month = 12, dt_day = 31, dt_hour = 13, dt_minute = 0, dt_second = 0\<rparr>
       \<lparr>dt_year = 9999, dt_month = 12, dt_day = 31, dt_hour = 14, dt_minute = 0, dt_second = 0\<rparr>
   \<and> keep_rule 9999 (parse_record latin1_db (aligned_fields W3_HEADER (tokenize SEMICOLON W4_LINE_OVERFLOW)))
   \<and> dt_add \<lparr>dt_year = 9999, dt_month = 12, dt_day = 31, dt_hour = 13, dt_minute = 0, dt_second = 0\<rparr> (hours 12)
     = Inl (OverflowError (ascii ''date value out of range''))
   \<and> loop_body latin1_db 9999 W3_HEADER init_state W4_LINE_OVERFLOW
     = Inl (OverflowError (ascii ''date value out of range''))
   \<and> main_core latin1_db 9999 [W3_HEADER_LINE, W4_LINE_OVERFLOW]
     = Inl (OverflowError (ascii ''date value out of range''))"
proof -
  have "p_start_dt (parse_record latin1_db (aligned_fields W3_HEADER (tokenize SEMICOLON W4_LINE_OVERFLOW)))
     = Some \<lparr>dt_year = 9999, dt_month = 12, dt_day = 31, dt_hour = 14, dt_minute = 0, dt_second = 0\<rparr>"
    by code_simp
  moreover have "p_end_dt (parse_record latin1_db (aligned_fields W3_HEADER (tokenize SEMICOLON W4_LINE_OVERFLOW)))
     = Some \<lparr>dt_year = 9999, dt_month = 12, dt_day = 31, dt_hour = 13, dt_minute = 0, dt_second = 0\<rparr>"
    by code_simp
  moreover have "dt_less \<lparr>dt_year = 9999, dt_month = 12, dt_day = 31, dt_hour = 13, dt_minute = 0, dt_second = 0\<rparr>
       \<lparr>dt_year = 9999, dt_month = 12, dt_day = 31, dt_hour = 14, dt_minute = 0, dt_second = 0\<rparr>"
    by code_simp
  moreover have "keep_rule 9999 (parse_record latin1_db (aligned_fields W3_HEADER (tokenize SEMICOLON W4_LINE_OVERFLOW)))"
    by code_simp
  moreover have "dt_add \<lparr>dt_year = 9999, dt_month = 12, dt_day = 31, dt_hour = 13, dt_minute = 0, dt_second = 0\<rparr> (hours 12)
     = Inl (OverflowError (ascii ''date value out of range''))"
    by code_simp
  moreover have "loop_body latin1_db 9999 W3_HEADER init_state W4_LINE_OVERFLOW
     = Inl (OverflowError (ascii ''date value out of range''))"
    by code_simp
  moreover have "main_core latin1_db 9999 [W3_HEADER_LINE, W4_LINE_OVERFLOW]
     = Inl (OverflowError (ascii ''date value out of range''))"
    by code_simp
  ultimately show ?thesis using W4_OVERFLOW_extract by simp
qed

lemma try_formats_None:
  "(\<forall>fmt\<in>set fmts. strptime U s fmt = None) \<Longrightarrow> try_formats U s fmts = None"
  by (induction fmts) auto

lemma parse_error_keyword:
  "sublist (ascii ''parse error'') (ascii ''Start parse error: '')"
  "sublist (ascii ''parse error'') (ascii ''End parse error: '')"
  by code_simp+

lemma missing_keyword:
  "sublist (ascii ''missing'') NOTE_START_MISSING"
  "sublist (ascii ''missing'') NOTE_END_MISSING"
  "sublist (ascii ''missing'') NOTE_AGENTS_MISSING"
  by code_simp+

lemma is_anomaly_note:
  assumes "n \<in> set ns"
    and "sublist (ascii ''parse error'') n \<or> sublist (ascii ''missing'') n
       \<or> sublist (ascii ''End time shifted +12h'') n
       \<or> sublist (ascii ''Duration still negative'') n"
  shows "is_anomaly (py_join NOTE_SEP ns)"
proof -
  from assms(1) have "sublist n (py_join NOTE_SEP ns)" by (rule contains_join)
  with assms(2) show ?thesis
    unfolding is_anomaly_def contains_def
    by (meson sublist_order.order.trans)
qed

lemma is_anomaly_empty: "\<not> is_anomaly (py_join NOTE_SEP [])"
  by code_simp

lemma duration_of_no_start: "duration_of None ec ns = (None, ns)"
  by (simp add: duration_of_def)

lemma duration_of_no_end: "duration_of s None ns = (None, ns)"
  by (simp add: duration_of_def split: option.splits)

lemma try_parse_dt_error:
  assumes "strip raw \<noteq> []" and "\<forall>fmt\<in>set DT_FORMATS. strptime U (strip raw) fmt = None"
  shows "parse_dt U raw = Inl (ValueError (ascii ''Date/heure non reconnue: '' @ strip raw))"
    and "try_parse_dt U pre (Some raw) =
       (None, [pre @ ascii ''Date/heure non reconnue: '' @ strip raw])"
proof -
  from assms(2) have "try_formats U (strip raw) DT_FORMATS = None" by (rule try_formats_None)
  then show p: "parse_dt U raw = Inl (ValueError (ascii ''Date/heure non reconnue: '' @ strip raw))"
    by (simp add: parse_dt_def Let_def)
  from assms(1) p show "try_parse_dt U pre (Some raw) =
       (None, [pre @ ascii ''Date/heure non reconnue: '' @ strip raw])"
    by (simp add: try_parse_dt_def is_empty_def)
qed

lemma loop_body_unparsed:
  assumes ex: "extract_fields U line hc SEMICOLON = Some ex"
    and none: "p_start_dt (parse_record U (ex_fields ex)) = None
               \<or> p_end_dt (parse_record U (ex_fields ex)) = None"
    and nt: "pre @ m \<in> set (p_notes (parse_record U (ex_fields ex)))"
    and kw: "sublist (ascii ''parse error'') pre"
  shows "\<exists>st'. loop_body U year hc st line = Inr st'
     \<and> (records st' = records st
        \<or> (\<exists>r a. records st' = records st @ [r] \<and> anomalies st' = anomalies st @ [a]
               \<and> contains (a_Notes a) (pre @ m)))"
proof -
  let ?p = "parse_record U (ex_fields ex)"
  show ?thesis
  proof (cases "keep_rule year ?p")
    case False
    from loop_body_skipped[OF ex False, of st] show ?thesis by auto
  next
    case True
    from none have ce: "correct_end ?p = Inr (p_end_dt ?p, p_notes ?p)"
      by (intro correct_end_same) auto
    from none have dn: "duration_of (p_start_dt ?p) (p_end_dt ?p) (p_notes ?p) = (None, p_notes ?p)"
      by (auto simp: duration_of_no_start duration_of_no_end)
    have "sublist pre (pre @ m)" by simp
    with kw have "sublist (ascii ''parse error'') (pre @ m)"
      by (rule sublist_order.order.trans)
    with nt have an: "is_anomaly (py_join NOTE_SEP (p_notes ?p))"
      by (intro is_anomaly_note[of "pre @ m"]) auto
    from nt have "sublist (pre @ m) (py_join NOTE_SEP (p_notes ?p))" by (rule contains_join)
    with loop_body_kept[OF ex True ce, of st] an show ?thesis
      by (auto simp: dn anomaly_row_def contains_def)
  qed
qed

text \<open>
  Claim C7. A start or end string that is not empty and that none of the date-time
  formats parses makes \<open>parse_dt\<close> raise the ValueError "Date/heure non reconnue: "
  followed by the (stripped) string. In the loop the error does not reach the caller:
  the step returns, the record is either filtered out by the year rule or emitted, and
  when it is emitted an anomaly row is appended whose notes contain "Start parse error: "
  (or "End parse error: ") followed by that message. The date-only parser returns None
  when none of its formats parses, and never raises.
\<close>

theorem parse_errors_recorded:
  fixes U :: pydb and year :: int and ex :: ExtractResult
  assumes "strip raw \<noteq> []"
    and "\<forall>fmt\<in>set DT_FORMATS. strptime U (strip raw) fmt = None"
  shows "parse_dt U raw = Inl (ValueError (ascii ''Date/heure non reconnue: '' @ strip raw))
    \<and> (extract_fields U line hc SEMICOLON = Some ex \<and> dict_get (ex_fields ex) KEY_DEBUT = Some raw \<longrightarrow>
         (\<exists>st'. loop_body U year hc st line = Inr st'
            \<and> (records st' = records st
               \<or> (\<exists>r a. records st' = records st @ [r] \<and> anomalies st' = anomalies st @ [a]
                      \<and> contains (a_Notes a)
                           (ascii ''Start parse error: '' @ ascii ''Date/heure non reconnue: '' @ strip raw)))))
    \<and> (extract_fields U line hc SEMICOLON = Some ex \<and> dict_get (ex_fields ex) KEY_FIN = Some raw \<longrightarrow>
         (\<exists>st'. loop_body U year hc st line = Inr st'
            \<and> (records st' = records st
               \<or> (\<exists>r a. records st' = records st @ [r] \<and> anomalies st' = anomalies st @ [a]
                      \<and> contains (a_Notes a)
                           (ascii ''End parse error: '' @ ascii ''Date/heure non reconnue: '' @ strip raw)))))
    \<and> ((\<forall>fmt\<in>set DATE_ONLY_FORMATS. strptime U (strip v) fmt = None) \<longrightarrow>
         parse_date_only U v = None)"
proof (intro conjI impI)
  show "parse_dt U raw = Inl (ValueError (ascii ''Date/heure non reconnue: '' @ strip raw))"
    using assms by (rule try_parse_dt_error(1))
next
  let ?m = "ascii ''Date/heure non reconnue: '' @ strip raw"
  assume a: "extract_fields U line hc SEMICOLON = Some ex \<and> dict_get (ex_fields ex) KEY_DEBUT = Some raw"
  let ?p = "parse_record U (ex_fields ex)"
  from a try_parse_dt_error(2)[OF assms, of "ascii ''Start parse error: ''"]
  have "p_start_dt ?p = None" "ascii ''Start parse error: '' @ ?m \<in> set (p_notes ?p)"
    by (simp_all add: parse_record_def Let_def)
  with a show "\<exists>st'. loop_body U year hc st line = Inr st'
            \<and> (records st' = records st
               \<or> (\<exists>r a. records st' = records st @ [r] \<and> anomalies st' = anomalies st @ [a]
                      \<and> contains (a_Notes a) (ascii ''Start parse error: '' @ ?m)))"
    by (intro loop_body_unparsed parse_error_keyword) auto
next
  let ?m = "ascii ''Date/heure non reconnue: '' @ strip raw"
  assume a: "extract_fields U line hc SEMICOLON = Some ex \<and> dict_get (ex_fields ex) KEY_FIN = Some raw"
  let ?p = "parse_record U (ex_fields ex)"
  from a try_parse_dt_error(2)[OF assms, of "ascii ''End parse error: ''"]
  have "p_end_dt ?p = None" "ascii ''End parse error: '' @ ?m \<in> set (p_notes ?p)"
    by (simp_all add: parse_record_def Let_def)
  with a show "\<exists>st'. loop_body U year hc st line = Inr st'
            \<and> (records st' = records st
               \<or> (\<exists>r a. records st' = records st @ [r] \<and> anomalies st' = anomalies st @ [a]
                      \<and> contains (a_Notes a) (ascii ''End parse error: '' @ ?m)))"
    by (intro loop_body_unparsed parse_error_keyword) auto
next
  assume "\<forall>fmt\<in>set DATE_ONLY_FORMATS. strptime U (strip v) fmt = None"
  then have "try_formats U (strip v) DATE_ONLY_FORMATS = None" by (rule try_formats_None)
  then show "parse_date_only U v = None"
    by (simp add: parse_date_only_def Let_def)
qed


lemma W7_extract:
  "extract_fields latin1_db W7_LINE W3_HEADER SEMICOLON =
     Some \<lparr>ex_fields = aligned_fields W3_HEADER (tokenize SEMICOLON W7_LINE), ex_aligned = True\<rparr>"
proof (rule extract_fields_aligned)
  show "startswith (clean_first (hd (tokenize SEMICOLON W7_LINE))) BE_PREFIX" by code_simp
  show "length (tokenize SEMICOLON W7_LINE) = length W3_HEADER" by code_simp
qed

theorem parse_errors_recorded_witness:
  "parse_dt latin1_db (ascii ''demain matin'')
     = Inl (ValueError (ascii ''Date/heure non reconnue: demain matin''))
   \<and> (\<exists>st' r a. loop_body latin1_db 2025 W3_HEADER init_state W7_LINE = Inr st'
         \<and> records st' = [r] \<and> anomalies st' = [a]
         \<and> contains (a_Notes a) (ascii ''Start parse error: Date/heure non reconnue: demain matin''))
   \<and> parse_date_only latin1_db (ascii ''hier'') = None"
proof -
  have h1: "strip (ascii ''demain matin'') \<noteq> []" by code_simp
  have h2: "\<forall>fmt\<in>set DT_FORMATS. strptime latin1_db (strip (ascii ''demain matin'')) fmt = None"
    by code_simp
  have h3: "\<forall>fmt\<in>set DATE_ONLY_FORMATS. strptime latin1_db (strip (ascii ''hier'')) fmt = None"
    by code_simp
  have raw: "dict_get (ex_fields \<lparr>ex_fields = aligned_fields W3_HEADER (tokenize SEMICOLON W7_LINE), ex_aligned = True\<rparr>) KEY_DEBUT
      = Some (ascii ''demain matin'')"
    by code_simp
  have s: "strip (ascii ''demain matin'') = ascii ''demain matin''" by code_simp
  have m: "ascii ''Date/heure non reconnue: '' @ ascii ''demain matin'' = ascii ''Date/heure non reconnue: demain matin''"
    "ascii ''Start parse error: '' @ ascii ''Date/heure non reconnue: demain matin''
      = ascii ''Start parse error: Date/heure non reconnue: demain matin''"
    by (simp_all add: ascii_def)
  have emitted: "case loop_body latin1_db 2025 W3_HEADER init_state W7_LINE of
      Inr st' \<Rightarrow> length (records st') = 1 | Inl err \<Rightarrow> False"
    by code_simp
  note th = parse_errors_recorded [OF h1 h2, of W7_LINE W3_HEADER
      "\<lparr>ex_fields = aligned_fields W3_HEADER (tokenize SEMICOLON W7_LINE), ex_aligned = True\<rparr>"
      2025 init_state "ascii ''hier''", unfolded s m]
  from th have a: "parse_dt latin1_db (ascii ''demain matin'')
     = Inl (ValueError (ascii ''Date/heure non reconnue: demain matin''))"
    by blast
  from th W7_extract raw obtain st' where st': "loop_body latin1_db 2025 W3_HEADER init_state W7_LINE = Inr st'"
    and d: "records st' = records init_state
       \<or> (\<exists>r a. records st' = records init_state @ [r] \<and> anomalies st' = anomalies init_state @ [a]
           \<and> contains (a_Notes a) (ascii ''Start parse error: Date/heure non reconnue: demain matin''))"
    by blast
  from emitted st' have "records st' \<noteq> records init_state" by (auto simp: init_state_def)
  with d st' have b: "\<exists>st' r a. loop_body latin1_db 2025 W3_HEADER init_state W7_LINE = Inr st'
         \<and> records st' = [r] \<and> anomalies st' = [a]
         \<and> contains (a_Notes a) (ascii ''Start parse error: Date/heure non reconnue: demain matin'')"
    by (auto simp: init_state_def)
  from th h3 have c: "parse_date_only latin1_db (ascii ''hier'') = None" by blast
  from a b c show ?thesis by blast
qed

lemma parse_record_missing:
  "p_start_dt (parse_record U f) = None \<Longrightarrow> NOTE_START_MISSING \<in> set (p_notes (parse_record U f))"
  "p_end_dt (parse_record U f) = None \<Longrightarrow> NOTE_END_MISSING \<in> set (p_notes (parse_record U f))"
  "is_empty (p_agents (parse_record U f)) \<Longrightarrow> NOTE_AGENTS_MISSING \<in> set (p_notes (parse_record U f))"
  by (simp_all add: parse_record_def Let_def)

lemma parse_record_agents: "p_agents (parse_record U f) = dict_get f KEY_AGENTS"
  by (simp add: parse_record_def Let_def)

lemma duration_of_notes:
  "snd (duration_of s ec ns) =
     ns @ (if (\<exists>d. fst (duration_of s ec ns) = Some d \<and> d < 0) then [NOTE_NEGATIVE] else [])"
  by (auto simp: duration_of_def Let_def split: option.splits)

lemma correct_end_notes:
  assumes "correct_end p = Inr (ec, ns)"
  shows "ns = p_notes p @ (if (\<exists>s e. p_start_dt p = Some s \<and> p_end_dt p = Some e \<and> dt_less e s)
                          then [NOTE_SHIFTED] else [])"
  using assms by (auto simp: correct_end_def split: option.splits if_splits sum.splits)

lemma kept_step:
  fixes U :: pydb and year :: int and ex :: ExtractResult
  assumes ex: "extract_fields U line hc SEMICOLON = Some ex"
    and keep: "keep_rule year (parse_record U (ex_fields ex))"
    and run: "loop_body U year hc st line = Inr st'"
  defines "p \<equiv> parse_record U (ex_fields ex)"
  defines "shifted \<equiv> (\<exists>s e. p_start_dt p = Some s \<and> p_end_dt p = Some e \<and> dt_less e s)"
  shows "\<exists>r. records st' = records st @ [r] \<and> r_ID r = dict_get (ex_fields ex) KEY_ID \<and>
     (if p_start_dt p = None \<or> p_end_dt p = None \<or> is_empty (p_agents p) \<or> shifted
          \<or> (\<exists>d. r_Duree r = Some d \<and> d < 0)
      then (\<exists>a. anomalies st' = anomalies st @ [a] \<and> a_ID a = r_ID r
              \<and> a_Notes a = py_join NOTE_SEP
                   (p_notes p @ (if shifted then [NOTE_SHIFTED] else [])
                      @ (if (\<exists>d. r_Duree r = Some d \<and> d < 0) then [NOTE_NEGATIVE] else [])))
      else anomalies st' = anomalies st)"
proof -
  obtain ec ns where ce: "correct_end p = Inr (ec, ns)"
  proof (cases "correct_end p")
    case (Inl err)
    from loop_body_overflow[OF ex keep, of err st] Inl run show ?thesis by (simp add: p_def)
  next
    case (Inr x)
    with that show ?thesis by (cases x) auto
  qed
  define dn where "dn = duration_of (p_start_dt p) ec ns"
  define negative where "negative = (\<exists>d. fst dn = Some d \<and> d < 0)"
  define all_notes where "all_notes = p_notes p @ (if shifted then [NOTE_SHIFTED] else [])
      @ (if negative then [NOTE_NEGATIVE] else [])"
  define r where "r = planning_row (ex_fields ex) p ec (fst dn)"
  from correct_end_notes[OF ce] have ns: "ns = p_notes p @ (if shifted then [NOTE_SHIFTED] else [])"
    by (simp add: shifted_def)
  have sdn: "snd dn = all_notes"
    using duration_of_notes[of "p_start_dt p" ec ns, folded dn_def]
    by (simp add: all_notes_def negative_def ns)
  have rd: "r_Duree r = fst dn" "r_ID r = dict_get (ex_fields ex) KEY_ID"
    by (simp_all add: r_def planning_row_def)
  from loop_body_kept[OF ex keep ce[unfolded p_def], of st] run
  have recs: "records st' = records st @ [r]"
    and anoms: "anomalies st' = anomalies st
        @ (if is_anomaly (py_join NOTE_SEP all_notes)
           then [anomaly_row (ex_fields ex) p ec (fst dn) (py_join NOTE_SEP all_notes)] else [])"
    by (simp_all add: r_def dn_def[symmetric] p_def[symmetric] sdn)
  let ?trig = "p_start_dt p = None \<or> p_end_dt p = None \<or> is_empty (p_agents p) \<or> shifted \<or> negative"
  have an: "is_anomaly (py_join NOTE_SEP all_notes) \<longleftrightarrow> ?trig"
  proof
    assume ?trig
    then consider "p_start_dt p = None" | "p_end_dt p = None" | "is_empty (p_agents p)"
      | shifted | negative by auto
    then show "is_anomaly (py_join NOTE_SEP all_notes)"
    proof cases
      case 1
      then have "NOTE_START_MISSING \<in> set all_notes"
        unfolding all_notes_def p_def by (simp add: parse_record_missing)
      then show ?thesis by (rule is_anomaly_note) (simp add: missing_keyword)
    next
      case 2
      then have "NOTE_END_MISSING \<in> set all_notes"
        unfolding all_notes_def p_def by (simp add: parse_record_missing)
      then show ?thesis by (rule is_anomaly_note) (simp add: missing_keyword)
    next
      case 3
      then have "NOTE_AGENTS_MISSING \<in> set all_notes"
        unfolding all_notes_def p_def by (simp add: parse_record_missing)
      then show ?thesis by (rule is_anomaly_note) (simp add: missing_keyword)
    next
      case 4
      then have "NOTE_SHIFTED \<in> set all_notes" by (simp add: all_notes_def)
      then show ?thesis by (rule is_anomaly_note) (simp add: shifted_keyword)
    next
      case 5
      then have "NOTE_NEGATIVE \<in> set all_notes" by (simp add: all_notes_def)
      then show ?thesis by (rule is_anomaly_note) (simp add: negative_keyword)
    qed
  next
    assume a: "is_anomaly (py_join NOTE_SEP all_notes)"
    show ?trig
    proof (rule ccontr)
      assume n: "\<not> ?trig"
      then obtain s e where "p_start_dt p = Some s" "p_end_dt p = Some e" by auto
      from parse_record_notes_both[OF this[unfolded p_def]] n
      have "p_notes p = []" by (simp add: p_def parse_record_agents)
      with n have "all_notes = []" by (simp add: all_notes_def)
      with a is_anomaly_empty show False by simp
    qed
  qed
  have neg: "negative \<longleftrightarrow> (\<exists>d. r_Duree r = Some d \<and> d < 0)"
    by (simp add: negative_def rd)
  show ?thesis
  proof (cases ?trig)
    case True
    with an anoms have "anomalies st' = anomalies st
        @ [anomaly_row (ex_fields ex) p ec (fst dn) (py_join NOTE_SEP all_notes)]" by simp
    moreover have "a_ID (anomaly_row (ex_fields ex) p ec (fst dn) (py_join NOTE_SEP all_notes)) = r_ID r"
      "a_Notes (anomaly_row (ex_fields ex) p ec (fst dn) (py_join NOTE_SEP all_notes))
         = py_join NOTE_SEP all_notes"
      by (simp_all add: anomaly_row_def rd)
    ultimately show ?thesis
      using True recs rd(2) unfolding neg all_notes_def by (intro exI[of _ r]) auto
  next
    case False
    with an anoms have "anomalies st' = anomalies st" by simp
    with False recs rd(2) show ?thesis
      unfolding neg by (intro exI[of _ r]) auto
  qed
qed


lemma parse_record_error_notes:
  "dict_get f KEY_DEBUT = Some raw \<Longrightarrow> strip raw \<noteq> [] \<Longrightarrow> parse_dt U raw = Inl e
   \<Longrightarrow> ascii ''Start parse error: '' @ exc_str e \<in> set (p_notes (parse_record U f))"
  "dict_get f KEY_FIN = Some raw \<Longrightarrow> strip raw \<noteq> [] \<Longrightarrow> parse_dt U raw = Inl e
   \<Longrightarrow> ascii ''End parse error: '' @ exc_str e \<in> set (p_notes (parse_record U f))"
  by (simp_all add: parse_record_def Let_def try_parse_dt_def is_empty_def)

lemma loop_body_ids:
  assumes run: "loop_body U year hc st line = Inr st'"
    and inv: "\<forall>a\<in>set (anomalies st). \<exists>r\<in>set (records st). r_ID r = a_ID a"
  shows "\<forall>a\<in>set (anomalies st'). \<exists>r\<in>set (records st'). r_ID r = a_ID a"
proof (cases "extract_fields U line hc SEMICOLON")
  case None
  with run inv show ?thesis by (simp add: loop_body_none)
next
  case (Some ex)
  show ?thesis
  proof (cases "keep_rule year (parse_record U (ex_fields ex))")
    case False
    from loop_body_skipped[OF Some False, of st] run inv show ?thesis by auto
  next
    case True
    from kept_step[OF Some True run] obtain r where
      r: "records st' = records st @ [r]"
        "anomalies st' = anomalies st \<or> (\<exists>a. anomalies st' = anomalies st @ [a] \<and> a_ID a = r_ID r)"
      by (auto split: if_splits)
    from r(2) show ?thesis
    proof
      assume "anomalies st' = anomalies st"
      with r(1) inv show ?thesis by auto
    next
      assume "\<exists>a. anomalies st' = anomalies st @ [a] \<and> a_ID a = r_ID r"
      then obtain a where "anomalies st' = anomalies st @ [a]" "a_ID a = r_ID r" by blast
      with r(1) inv show ?thesis by auto
    qed
  qed
qed

lemma main_loop_ids:
  assumes "main_loop U year hc st lines = Inr st'"
    and "\<forall>a\<in>set (anomalies st). \<exists>r\<in>set (records st). r_ID r = a_ID a"
  shows "\<forall>a\<in>set (anomalies st'). \<exists>r\<in>set (records st'). r_ID r = a_ID a"
  using assms
proof (induction lines arbitrary: st)
  case Nil
  then show ?case by simp
next
  case (Cons line lines)
  from Cons.prems(1) obtain st1 where s1: "loop_body U year hc st line = Inr st1"
    and rest: "main_loop U year hc st1 lines = Inr st'"
    by (auto split: sum.splits)
  from loop_body_ids[OF s1 Cons.prems(2)] have "\<forall>a\<in>set (anomalies st1). \<exists>r\<in>set (records st1). r_ID r = a_ID a" .
  from Cons.IH[OF rest this] show ?case .
qed

lemma main_core_ids:
  assumes "main_core U year raw = Inr out"
  shows "\<forall>a\<in>set (anomalies out). \<exists>r\<in>set (records out). r_ID r = a_ID a"
proof -
  from assms obtain hc ls where "main_loop U year hc init_state ls = Inr out"
    by (auto simp: main_core_def Let_def split: if_splits)
  moreover have "\<forall>a\<in>set (anomalies init_state). \<exists>r\<in>set (records init_state). r_ID r = a_ID a"
    by (simp add: init_state_def)
  ultimately show ?thesis by (rule main_loop_ids)
qed

text \<open>
  Claim C8, as amended. For a kept record whose 12 hour correction, when it applies,
  gives a datetime (not past 31-12-9999), the step returns, exactly one row is emitted,
  and an anomaly row is appended if and only if the start is absent, the end is absent,
  the agents field is empty, the 12 hour correction was applied or the corrected
  duration is negative; a start or end that fails to parse is absent and leaves its
  parse error note. There is then exactly one anomaly row, with the ID of the emitted
  row, and its notes are all the notes of the record joined by the three characters
  space, vertical bar, space. Over a whole run, every anomaly row has the ID of an
  emitted row.
\<close>

theorem anomaly_classification:
  fixes U :: pydb and year :: int and ex :: ExtractResult
  assumes ex: "extract_fields U line hc SEMICOLON = Some ex"
    and keep: "keep_rule year (parse_record U (ex_fields ex))"
  defines "p \<equiv> parse_record U (ex_fields ex)"
  defines "shifted \<equiv> (\<exists>s e. p_start_dt p = Some s \<and> p_end_dt p = Some e \<and> dt_less e s)"
  assumes range: "\<forall>s e. p_start_dt p = Some s \<and> p_end_dt p = Some e \<and> dt_less e s
                    \<longrightarrow> (\<exists>e'. dt_add e (hours 12) = Inr e')"
  shows "(\<exists>st' r. loop_body U year hc st line = Inr st' \<and> records st' = records st @ [r] \<and>
     (if p_start_dt p = None \<or> p_end_dt p = None \<or> is_empty (p_agents p) \<or> shifted
          \<or> (\<exists>d. r_Duree r = Some d \<and> d < 0)
      then (\<exists>a. anomalies st' = anomalies st @ [a] \<and> a_ID a = r_ID r
              \<and> a_Notes a = py_join (ascii '' | '')
                   (p_notes p @ (if shifted then [NOTE_SHIFTED] else [])
                      @ (if (\<exists>d. r_Duree r = Some d \<and> d < 0) then [NOTE_NEGATIVE] else [])))
      else anomalies st' = anomalies st))
   \<and> (p_start_dt p = None \<longrightarrow> NOTE_START_MISSING \<in> set (p_notes p))
   \<and> (p_end_dt p = None \<longrightarrow> NOTE_END_MISSING \<in> set (p_notes p))
   \<and> (is_empty (p_agents p) \<longrightarrow> NOTE_AGENTS_MISSING \<in> set (p_notes p))
   \<and> (\<forall>raw e. dict_get (ex_fields ex) KEY_DEBUT = Some raw \<and> strip raw \<noteq> [] \<and> parse_dt U raw = Inl e
        \<longrightarrow> p_start_dt p = None \<and> ascii ''Start parse error: '' @ exc_str e \<in> set (p_notes p))
   \<and> (\<forall>raw e. dict_get (ex_fields ex) KEY_FIN = Some raw \<and> strip raw \<noteq> [] \<and> parse_dt U raw = Inl e
        \<longrightarrow> p_end_dt p = None \<and> ascii ''End parse error: '' @ exc_str e \<in> set (p_notes p))
   \<and> (\<forall>raw out. main_core U year raw = Inr out \<longrightarrow>
         (\<forall>a\<in>set (anomalies out). \<exists>r\<in>set (records out). r_ID r = a_ID a))"
proof -
  have "\<exists>ec ns. correct_end p = Inr (ec, ns)"
  proof (cases shifted)
    case True
    then obtain s e where se: "p_start_dt p = Some s" "p_end_dt p = Some e" "dt_less e s"
      unfolding shifted_def by blast
    with range obtain e' where "dt_add e (hours 12) = Inr e'" by blast
    with correct_end_shift[OF se] show ?thesis by simp
  next
    case False
    then show ?thesis using correct_end_same[of p] unfolding shifted_def by blast
  qed
  then obtain ec ns where ce: "correct_end p = Inr (ec, ns)" by blast
  from loop_body_kept[OF ex keep ce[unfolded p_def], of st]
  obtain st' where run: "loop_body U year hc st line = Inr st'" by blast
  from kept_step[OF ex keep run]
  obtain r where r: "records st' = records st @ [r]"
    and c: "if p_start_dt p = None \<or> p_end_dt p = None \<or> is_empty (p_agents p) \<or> shifted
          \<or> (\<exists>d. r_Duree r = Some d \<and> d < 0)
      then (\<exists>a. anomalies st' = anomalies st @ [a] \<and> a_ID a = r_ID r
              \<and> a_Notes a = py_join NOTE_SEP
                   (p_notes p @ (if shifted then [NOTE_SHIFTED] else [])
                      @ (if (\<exists>d. r_Duree r = Some d \<and> d < 0) then [NOTE_NEGATIVE] else [])))
      else anomalies st' = anomalies st"
    unfolding p_def shifted_def by blast
  have "\<exists>st' r. loop_body U year hc st line = Inr st' \<and> records st' = records st @ [r] \<and>
     (if p_start_dt p = None \<or> p_end_dt p = None \<or> is_empty (p_agents p) \<or> shifted
          \<or> (\<exists>d. r_Duree r = Some d \<and> d < 0)
      then (\<exists>a. anomalies st' = anomalies st @ [a] \<and> a_ID a = r_ID r
              \<and> a_Notes a = py_join (ascii '' | '')
                   (p_notes p @ (if shifted then [NOTE_SHIFTED] else [])
                      @ (if (\<exists>d. r_Duree r = Some d \<and> d < 0) then [NOTE_NEGATIVE] else [])))
      else anomalies st' = anomalies st)"
    using run r c[unfolded NOTE_SEP_def] by blast
  moreover have "p_start_dt p = None \<longrightarrow> NOTE_START_MISSING \<in> set (p_notes p)"
    "p_end_dt p = None \<longrightarrow> NOTE_END_MISSING \<in> set (p_notes p)"
    "is_empty (p_agents p) \<longrightarrow> NOTE_AGENTS_MISSING \<in> set (p_notes p)"
    unfolding p_def by (simp_all add: parse_record_missing)
  moreover have "\<forall>raw e. dict_get (ex_fields ex) KEY_DEBUT = Some raw \<and> strip raw \<noteq> [] \<and> parse_dt U raw = Inl e
        \<longrightarrow> p_start_dt p = None \<and> ascii ''Start parse error: '' @ exc_str e \<in> set (p_notes p)"
    unfolding p_def
    by (auto simp: parse_record_error_notes) (simp add: parse_record_def Let_def try_parse_dt_def is_empty_def)
  moreover have "\<forall>raw e. dict_get (ex_fields ex) KEY_FIN = Some raw \<and> strip raw \<noteq> [] \<and> parse_dt U raw = Inl e
        \<longrightarrow> p_end_dt p = None \<and> ascii ''End parse error: '' @ exc_str e \<in> set (p_notes p)"
    unfolding p_def
    by (auto simp: parse_record_error_notes) (simp add: parse_record_def Let_def try_parse_dt_def is_empty_def)
  moreover have "\<forall>raw out. main_core U year raw = Inr out \<longrightarrow>
         (\<forall>a\<in>set (anomalies out). \<exists>r\<in>set (records out). r_ID r = a_ID a)"
    using main_core_ids by blast
  ultimately show ?thesis by blast
qed


lemma W8_extract:
  "extract_fields latin1_db W8_LINE_BAD W8_HEADER SEMICOLON =
     Some \<lparr>ex_fields = aligned_fields W8_HEADER (tokenize SEMICOLON W8_LINE_BAD), ex_aligned = True\<rparr>"
  "extract_fields latin1_db W8_LINE_OK W8_HEADER SEMICOLON =
     Some \<lparr>ex_fields = aligned_fields W8_HEADER (tokenize SEMICOLON W8_LINE_OK), ex_aligned = True\<rparr>"
proof -
  show "extract_fields latin1_db W8_LINE_BAD W8_HEADER SEMICOLON =
     Some \<lparr>ex_fields = aligned_fields W8_HEADER (tokenize SEMICOLON W8_LINE_BAD), ex_aligned = True\<rparr>"
  proof (rule extract_fields_aligned)
    show "startswith (clean_first (hd (tokenize SEMICOLON W8_LINE_BAD))) BE_PREFIX" by code_simp
    show "length (tokenize SEMICOLON W8_LINE_BAD) = length W8_HEADER" by code_simp
  qed
  show "extract_fields latin1_db W8_LINE_OK W8_HEADER SEMICOLON =
     Some \<lparr>ex_fields = aligned_fields W8_HEADER (tokenize SEMICOLON W8_LINE_OK), ex_aligned = True\<rparr>"
  proof (rule extract_fields_aligned)
    show "startswith (clean_first (hd (tokenize SEMICOLON W8_LINE_OK))) BE_PREFIX" by code_simp
    show "length (tokenize SEMICOLON W8_LINE_OK) = length W8_HEADER" by code_simp
  qed
qed

theorem anomaly_classification_witness:
  "(\<exists>st' r a. loop_body latin1_db 2025 W8_HEADER init_state W8_LINE_BAD = Inr st'
       \<and> records st' = [r] \<and> anomalies st' = [a] \<and> a_ID a = r_ID r
       \<and> a_Notes a = KEY_AGENTS @ ascii '' missing | End time shifted +12h (12h ambiguity forced) | Duration still negative after correction'')
   \<and> (\<exists>st' r. loop_body latin1_db 2025 W8_HEADER init_state W8_LINE_OK = Inr st'
       \<and> records st' = [r] \<and> anomalies st' = [])"
proof -
  let ?exb = "\<lparr>ex_fields = aligned_fields W8_HEADER (tokenize SEMICOLON W8_LINE_BAD), ex_aligned = True\<rparr>"
  let ?exo = "\<lparr>ex_fields = aligned_fields W8_HEADER (tokenize SEMICOLON W8_LINE_OK), ex_aligned = True\<rparr>"
  let ?pb = "parse_record latin1_db (ex_fields ?exb)"
  let ?po = "parse_record latin1_db (ex_fields ?exo)"
  have keepb: "keep_rule 2025 ?pb" by code_simp
  have keepo: "keep_rule 2025 ?po" by code_simp
  have runb: "case loop_body latin1_db 2025 W8_HEADER init_state W8_LINE_BAD of
      Inr st' \<Rightarrow> map r_Duree (records st') = [Some (- 43200)] | Inl err \<Rightarrow> False"
    by code_simp
  have runo: "case loop_body latin1_db 2025 W8_HEADER init_state W8_LINE_OK of
      Inr st' \<Rightarrow> map r_Duree (records st') = [Some 3600] | Inl err \<Rightarrow> False"
    by code_simp
  have pb: "p_start_dt ?pb = Some \<lparr>dt_year = 2025, dt_month = 1, dt_day = 2, dt_hour = 10, dt_minute = 0, dt_second = 0\<rparr>"
    "p_end_dt ?pb = Some \<lparr>dt_year = 2025, dt_month = 1, dt_day = 1, dt_hour = 10, dt_minute = 0, dt_second = 0\<rparr>"
    "p_notes ?pb = [NOTE_AGENTS_MISSING]"
    by code_simp+
  have lessb: "dt_less \<lparr>dt_year = 2025, dt_month = 1, dt_day = 1, dt_hour = 10, dt_minute = 0, dt_second = 0\<rparr>
      \<lparr>dt_year = 2025, dt_month = 1, dt_day = 2, dt_hour = 10, dt_minute = 0, dt_second = 0\<rparr>"
    by code_simp
  have addb: "dt_add \<lparr>dt_year = 2025, dt_month = 1, dt_day = 1, dt_hour = 10, dt_minute = 0, dt_second = 0\<rparr> (hours 12)
      = Inr \<lparr>dt_year = 2025, dt_month = 1, dt_day = 1, dt_hour = 22, dt_minute = 0, dt_second = 0\<rparr>"
    by code_simp
  have po: "p_start_dt ?po = Some \<lparr>dt_year = 2025, dt_month = 1, dt_day = 1, dt_hour = 10, dt_minute = 0, dt_second = 0\<rparr>"
    "p_end_dt ?po = Some \<lparr>dt_year = 2025, dt_month = 1, dt_day = 1, dt_hour = 11, dt_minute = 0, dt_second = 0\<rparr>"
    "\<not> is_empty (p_agents ?po)"
    by code_simp+
  have lesso: "\<not> dt_less \<lparr>dt_year = 2025, dt_month = 1, dt_day = 1, dt_hour = 11, dt_minute = 0, dt_second = 0\<rparr>
      \<lparr>dt_year = 2025, dt_month = 1, dt_day = 1, dt_hour = 10, dt_minute = 0, dt_second = 0\<rparr>"
    by code_simp
  have joined: "py_join (ascii '' | '') [NOTE_AGENTS_MISSING, NOTE_SHIFTED, NOTE_NEGATIVE]
      = KEY_AGENTS @ ascii '' missing | End time shifted +12h (12h ambiguity forced) | Duration still negative after correction''"
    by code_simp
  have rangeb: "\<forall>s e. p_start_dt ?pb = Some s \<and> p_end_dt ?pb = Some e \<and> dt_less e s
      \<longrightarrow> (\<exists>e'. dt_add e (hours 12) = Inr e')"
    using addb unfolding pb by auto
  have rangeo: "\<forall>s e. p_start_dt ?po = Some s \<and> p_end_dt ?po = Some e \<and> dt_less e s
      \<longrightarrow> (\<exists>e'. dt_add e (hours 12) = Inr e')"
    using lesso unfolding po by auto
  have shb: "\<exists>s e. p_start_dt ?pb = Some s \<and> p_end_dt ?pb = Some e \<and> dt_less e s"
    using pb lessb by simp
  have sho: "\<not> (\<exists>s e. p_start_dt ?po = Some s \<and> p_end_dt ?po = Some e \<and> dt_less e s)"
    using po lesso by simp
  from anomaly_classification [OF W8_extract(1) keepb rangeb, of init_state]
  obtain stb r where stb: "loop_body latin1_db 2025 W8_HEADER init_state W8_LINE_BAD = Inr stb"
    and r: "records stb = records init_state @ [r]"
    and c: "if p_start_dt ?pb = None \<or> p_end_dt ?pb = None \<or> is_empty (p_agents ?pb)
          \<or> (\<exists>s e. p_start_dt ?pb = Some s \<and> p_end_dt ?pb = Some e \<and> dt_less e s)
          \<or> (\<exists>d. r_Duree r = Some d \<and> d < 0)
      then (\<exists>a. anomalies stb = anomalies init_state @ [a] \<and> a_ID a = r_ID r
              \<and> a_Notes a = py_join (ascii '' | '')
                   (p_notes ?pb @ (if (\<exists>s e. p_start_dt ?pb = Some s \<and> p_end_dt ?pb = Some e \<and> dt_less e s) then [NOTE_SHIFTED] else [])
                      @ (if (\<exists>d. r_Duree r = Some d \<and> d < 0) then [NOTE_NEGATIVE] else [])))
      else anomalies stb = anomalies init_state"
    by blast
  from runb stb have durb: "map r_Duree (records stb) = [Some (- 43200)]" by simp
  from r durb have rd: "r_Duree r = Some (- 43200)" by (simp add: init_state_def)
  then have neg: "\<exists>d. r_Duree r = Some d \<and> d < 0" by simp
  from c shb neg obtain a where "anomalies stb = anomalies init_state @ [a]" "a_ID a = r_ID r"
    "a_Notes a = py_join (ascii '' | '') (p_notes ?pb @ [NOTE_SHIFTED] @ [NOTE_NEGATIVE])"
    by (simp only: simp_thms if_True) blast
  with r stb have first: "\<exists>st' r a. loop_body latin1_db 2025 W8_HEADER init_state W8_LINE_BAD = Inr st'
       \<and> records st' = [r] \<and> anomalies st' = [a] \<and> a_ID a = r_ID r
       \<and> a_Notes a = KEY_AGENTS @ ascii '' missing | End time shifted +12h (12h ambiguity forced) | Duration still negative after correction''"
    using pb(3) joined by (simp add: init_state_def)
  from anomaly_classification [OF W8_extract(2) keepo rangeo, of init_state]
  obtain sto r' where sto: "loop_body latin1_db 2025 W8_HEADER init_state W8_LINE_OK = Inr sto"
    and r': "records sto = records init_state @ [r']"
    and c': "if p_start_dt ?po = None \<or> p_end_dt ?po = None \<or> is_empty (p_agents ?po)
          \<or> (\<exists>s e. p_start_dt ?po = Some s \<and> p_end_dt ?po = Some e \<and> dt_less e s)
          \<or> (\<exists>d. r_Duree r' = Some d \<and> d < 0)
      then (\<exists>a. anomalies sto = anomalies init_state @ [a] \<and> a_ID a = r_ID r'
              \<and> a_Notes a = py_join (ascii '' | '')
                   (p_notes ?po @ (if (\<exists>s e. p_start_dt ?po = Some s \<and> p_end_dt ?po = Some e \<and> dt_less e s) then [NOTE_SHIFTED] else [])
                      @ (if (\<exists>d. r_Duree r' = Some d \<and> d < 0) then [NOTE_NEGATIVE] else [])))
      else anomalies sto = anomalies init_state"
    by blast
  from runo sto have duro: "map r_Duree (records sto) = [Some 3600]" by simp
  from r' duro have "r_Duree r' = Some 3600" by (simp add: init_state_def)
  then have nneg: "\<not> (\<exists>d. r_Duree r' = Some d \<and> d < 0)" by simp
  from po have "\<not> (p_start_dt ?po = None \<or> p_end_dt ?po = None \<or> is_empty (p_agents ?po))" by simp
  with c' sho nneg have "anomalies sto = anomalies init_state"
    by (simp only: simp_thms if_False)
  with r' sto have second: "\<exists>st' r. loop_body latin1_db 2025 W8_HEADER init_state W8_LINE_OK = Inr st'
       \<and> records st' = [r] \<and> anomalies st' = []"
    by (simp add: init_state_def)
  from first second show ?thesis by blast
qed

lemma W8_OVERFLOW_extract:
  "extract_fields latin1_db W8_LINE_OVERFLOW W8_HEADER SEMICOLON =
     Some \<lparr>ex_fields = aligned_fields W8_HEADER (tokenize SEMICOLON W8_LINE_OVERFLOW),
           ex_aligned = True\<rparr>"
proof (rule extract_fields_aligned)
  show "startswith (clean_first (hd (tokenize SEMICOLON W8_LINE_OVERFLOW))) BE_PREFIX" by code_simp
  show "length (tokenize SEMICOLON W8_LINE_OVERFLOW) = length W8_HEADER" by code_simp
qed

text \<open>
  Claim C8 as stated fails. The record \<open>BE-7;31/12/9999 14:00;31/12/9999 13:00;\<close>, under
  the header ID, start, end, agents and for the year 9999, passes the year filter and
  is counted as kept; its agents field is empty, which is a trigger, and the note for it
  is recorded. Its end precedes its start at the last day of the year 9999, so the
  12 hour addition raises OverflowError: the run stops, and the record is placed in no
  anomaly set.
\<close>

theorem anomaly_overflow_counterexample:
  "extract_fields latin1_db W8_LINE_OVERFLOW W8_HEADER SEMICOLON =
     Some \<lparr>ex_fields = aligned_fields W8_HEADER (tokenize SEMICOLON W8_LINE_OVERFLOW),
           ex_aligned = True\<rparr>
   \<and> keep_rule 9999 (parse_record latin1_db (aligned_fields W8_HEADER (tokenize SEMICOLON W8_LINE_OVERFLOW)))
   \<and> is_empty (p_agents (parse_record latin1_db (aligned_fields W8_HEADER (tokenize SEMICOLON W8_LINE_OVERFLOW))))
   \<and> p_notes (parse_record latin1_db (aligned_fields W8_HEADER (tokenize SEMICOLON W8_LINE_OVERFLOW)))
     = [NOTE_AGENTS_MISSING]
   \<and> loop_body latin1_db 9999 W8_HEADER init_state W8_LINE_OVERFLOW
     = Inl (OverflowError (ascii ''date value out of range''))
   \<and> main_core latin1_db 9999 [W8_HEADER_LINE, W8_LINE_OVERFLOW]
     = Inl (OverflowError (ascii ''date value out of range''))"
proof -
  have "keep_rule 9999 (parse_record latin1_db (aligned_fields W8_HEADER (tokenize SEMICOLON W8_LINE_OVERFLOW)))"
    by code_simp
  moreover have "is_empty (p_agents (parse_record latin1_db (aligned_fields W8_HEADER (tokenize SEMICOLON W8_LINE_OVERFLOW))))"
    by code_simp
  moreover have "p_notes (parse_record latin1_db (aligned_fields W8_HEADER (tokenize SEMICOLON W8_LINE_OVERFLOW)))
     = [NOTE_AGENTS_MISSING]"
    by code_simp
  moreover have "loop_body latin1_db 9999 W8_HEADER init_state W8_LINE_OVERFLOW
     = Inl (OverflowError (ascii ''date value out of range''))"
    by code_simp
  moreover have "main_core latin1_db 9999 [W8_HEADER_LINE, W8_LINE_OVERFLOW]
     = Inl (OverflowError (ascii ''date value out of range''))"
    by code_simp
  ultimately show ?thesis using W8_OVERFLOW_extract by simp
qed


lemma extract_fields_Some:
  assumes "extract_fields U line hc d = Some ex"
  shows "startswith (clean_first (hd (tokenize d line))) BE_PREFIX"
    and "ex_aligned ex \<Longrightarrow> ex_fields ex = aligned_fields hc (tokenize d line)"
    and "\<not> ex_aligned ex \<Longrightarrow>
       ex_fields ex = heuristic_fields U (clean_first (hd (tokenize d line))) (tokenize d line) hc"
  using assms by (auto simp: extract_fields_def Let_def split: if_splits)

lemma loop_body_records:
  assumes run: "loop_body U year hc st line = Inr st'"
  shows "records st' = records st
     \<or> (\<exists>r. records st' = records st @ [r] \<and> id_of_line U hc line (r_ID r))"
proof (cases "extract_fields U line hc SEMICOLON")
  case None
  with run show ?thesis by (simp add: loop_body_none)
next
  case (Some ex)
  show ?thesis
  proof (cases "keep_rule year (parse_record U (ex_fields ex))")
    case False
    from loop_body_skipped[OF Some False, of st] run show ?thesis by auto
  next
    case True
    from kept_step[OF Some True run] obtain r where
      r: "records st' = records st @ [r]" "r_ID r = dict_get (ex_fields ex) KEY_ID"
      by blast
    have "id_of_line U hc line (r_ID r)"
    proof (cases "ex_aligned ex")
      case True
      with extract_fields_Some[OF Some] r(2) Some show ?thesis
        by (simp add: id_of_line_def)
    next
      case False
      with extract_fields_Some[OF Some] r(2) Some show ?thesis
        by (simp add: id_of_line_def heuristic_id)
    qed
    with r(1) show ?thesis by blast
  qed
qed

lemma main_loop_records:
  assumes "main_loop U year hc st lines = Inr st'" and "r \<in> set (records st')"
  shows "r \<in> set (records st) \<or> (\<exists>line\<in>set lines. id_of_line U hc line (r_ID r))"
  using assms
proof (induction lines arbitrary: st)
  case Nil
  then show ?case by simp
next
  case (Cons line lines)
  from Cons.prems(1) obtain st1 where s1: "loop_body U year hc st line = Inr st1"
    and rest: "main_loop U year hc st1 lines = Inr st'"
    by (auto split: sum.splits)
  from Cons.IH[OF rest Cons.prems(2)]
  have "r \<in> set (records st1) \<or> (\<exists>l\<in>set lines. id_of_line U hc l (r_ID r))" .
  then show ?case
  proof
    assume "r \<in> set (records st1)"
    with loop_body_records[OF s1] show ?thesis by auto
  next
    assume "\<exists>l\<in>set lines. id_of_line U hc l (r_ID r)"
    then show ?thesis by auto
  qed
qed

text \<open>
  Claim C2, as amended. Every row emitted by a run comes from a logical record whose
  first token, cleaned of the byte-order mark, whitespace and quotes, starts with BE-:
  a record without such a token is never emitted. When the record went through the
  broken path, the emitted ID is that cleaned token (so it is not empty and starts with
  BE-); when it went through the aligned path, the emitted ID is the token that the
  header maps to "ID", as it stands, and is absent when the header has no such column.
\<close>

theorem emitted_ids:
  assumes "main_core U year raw_lines = Inr out" and "r \<in> set (records out)"
  shows "\<exists>line ex. line \<in> set (tl (rebuild_records_by_id raw_lines SEMICOLON))
     \<and> extract_fields U line (tokenize SEMICOLON (hd (rebuild_records_by_id raw_lines SEMICOLON)))
          SEMICOLON = Some ex
     \<and> startswith (clean_first (hd (tokenize SEMICOLON line))) BE_PREFIX
     \<and> (if ex_aligned ex
        then r_ID r = dict_get (aligned_fields
               (tokenize SEMICOLON (hd (rebuild_records_by_id raw_lines SEMICOLON)))
               (tokenize SEMICOLON line)) KEY_ID
        else r_ID r = Some (clean_first (hd (tokenize SEMICOLON line))))"
proof -
  let ?rebuilt = "rebuild_records_by_id raw_lines SEMICOLON"
  let ?hc = "tokenize SEMICOLON (hd ?rebuilt)"
  from assms(1) have "main_loop U year ?hc init_state (tl ?rebuilt) = Inr out"
    by (auto simp: main_core_def Let_def split: if_splits)
  from main_loop_records[OF this assms(2)]
  obtain line where "line \<in> set (tl ?rebuilt)" "id_of_line U ?hc line (r_ID r)"
    by (auto simp: init_state_def)
  then show ?thesis
    by (auto simp: id_of_line_def split: option.splits if_splits)
qed

text \<open>
  Claim C2 as stated fails on the aligned path, which stores the tokens as they are.
  The record \<open>"BE-1";01-01-25 10:00;01-01-25 11:00\<close> (quotes included) is accepted, since
  its cleaned first token is BE-1, and is emitted with the ID \<open>"BE-1"\<close>, which starts
  with a quote; under a header without an ID column the emitted ID is absent.
\<close>

theorem emitted_ids_counterexample:
  "map r_ID (case main_core latin1_db 2025 [W3_HEADER_LINE, W2_LINE] of
               Inr out \<Rightarrow> records out | Inl err \<Rightarrow> [])
     = [Some ([34] @ ascii ''BE-1'' @ [34])]
   \<and> \<not> startswith ([34] @ ascii ''BE-1'' @ [34]) BE_PREFIX
   \<and> map r_ID (case main_core latin1_db 2025
                  [W2_HEADER_LINE_NO_ID, ascii ''BE-1;01-01-25 10:00;01-01-25 11:00''] of
               Inr out \<Rightarrow> records out | Inl err \<Rightarrow> [])
     = [None]"
  by code_simp

theorem emitted_ids_witness:
  "(\<exists>out r. main_core latin1_db 2025 [W3_HEADER_LINE, W2_LINE] = Inr out \<and> records out = [r]
       \<and> r_ID r = Some ([34] @ ascii ''BE-1'' @ [34]))
   \<and> (\<exists>out r. main_core latin1_db 2025 [W3_HEADER_LINE, W10_LINE] = Inr out \<and> records out = [r]
       \<and> r_ID r = Some (ascii ''BE-1''))"
proof -
  have run1: "case main_core latin1_db 2025 [W3_HEADER_LINE, W2_LINE] of
      Inr out \<Rightarrow> length (records out) = 1 | Inl err \<Rightarrow> False"
    by code_simp
  have run2: "case main_core latin1_db 2025 [W3_HEADER_LINE, W10_LINE] of
      Inr out \<Rightarrow> length (records out) = 1 | Inl err \<Rightarrow> False"
    by code_simp
  have rb1: "rebuild_records_by_id [W3_HEADER_LINE, W2_LINE] SEMICOLON = [W3_HEADER_LINE, W2_LINE]"
    by code_simp
  have rb2: "rebuild_records_by_id [W3_HEADER_LINE, W10_LINE] SEMICOLON = [W3_HEADER_LINE, W10_LINE]"
    by code_simp
  have al1: "map_option ex_aligned (extract_fields latin1_db W2_LINE (tokenize SEMICOLON W3_HEADER_LINE) SEMICOLON) = Some True"
    by code_simp
  have al2: "map_option ex_aligned (extract_fields latin1_db W10_LINE (tokenize SEMICOLON W3_HEADER_LINE) SEMICOLON) = Some False"
    by code_simp
  have id1: "dict_get (aligned_fields (tokenize SEMICOLON W3_HEADER_LINE) (tokenize SEMICOLON W2_LINE)) KEY_ID
      = Some ([34] @ ascii ''BE-1'' @ [34])"
    by code_simp
  have id2: "clean_first (hd (tokenize SEMICOLON W10_LINE)) = ascii ''BE-1''"
    by code_simp
  from run1 obtain out1 r1 where o1: "main_core latin1_db 2025 [W3_HEADER_LINE, W2_LINE] = Inr out1"
    and r1: "records out1 = [r1]"
    by (auto split: sum.splits simp: length_Suc_conv)
  from run2 obtain out2 r2 where o2: "main_core latin1_db 2025 [W3_HEADER_LINE, W10_LINE] = Inr out2"
    and r2: "records out2 = [r2]"
    by (auto split: sum.splits simp: length_Suc_conv)
  from emitted_ids [OF o1, of r1] r1 al1 id1
  have "r_ID r1 = Some ([34] @ ascii ''BE-1'' @ [34])"
    by (auto simp: rb1 split: if_splits)
  moreover from emitted_ids [OF o2, of r2] r2 al2 id2
  have "r_ID r2 = Some (ascii ''BE-1'')"
    by (auto simp: rb2 split: if_splits)
  ultimately show ?thesis using o1 r1 o2 r2 by blast
qed

end
